theory Spec2Isabelle
  imports Complex_Main "HOL-Library.Multiset"
begin

section \<open>Data model\<close>

text \<open>
  The module \<^verbatim>\<open>rectangle.py\<close> works on numpy arrays. A point is one row \<open>[x, y]\<close> of an
  \<open>(n, 2)\<close> array; the pipeline passes the integer pixel coordinates that
  \<^verbatim>\<open>cv2.approxPolyDP\<close> returns, an array of \<^verbatim>\<open>int32\<close>. A coordinate is an integer, and an
  input of the module is a list of points whose coordinates are in the range of
  \<^verbatim>\<open>int32\<close>. The arithmetic of numpy on them is written out below: the differences wrap
  at 32 bits, and the rows that \<^verbatim>\<open>order_points\<close> returns are rounded to \<^verbatim>\<open>float32\<close>.
\<close>

type_synonym point = "int \<times> int"

definition int32 :: "int \<Rightarrow> bool" where
  "int32 c \<longleftrightarrow> - (2 ^ 31) \<le> c \<and> c < 2 ^ 31"

definition int32_points :: "point list \<Rightarrow> bool" where
  "int32_points pts \<longleftrightarrow> list_all (\<lambda>p. int32 (fst p) \<and> int32 (snd p)) pts"

type_synonym contour = "point list"

text \<open>
  The array \<^verbatim>\<open>rect\<close> of \<^verbatim>\<open>order_points\<close> has four rows, which
  \<^verbatim>\<open>four_point_transform\<close> unpacks as \<^verbatim>\<open>(tl, tr, br, bl) = rect\<close> (the field
  names carry a suffix, \<open>tl\<close> being the tail of a list in HOL). The rows are \<^verbatim>\<open>float32\<close>;
  those of an \<^verbatim>\<open>int32\<close> input have integer values.
\<close>

record quad =
  tl_pt :: point
  tr_pt :: point
  br_pt :: point
  bl_pt :: point

text \<open>
  The only exception the module can raise by itself is numpy's \<^verbatim>\<open>ValueError\<close>
  ("attempt to get argmin of an empty sequence").
\<close>

datatype error = ValueError

section \<open>numpy primitives\<close>

text \<open>
  \<^verbatim>\<open>np.argmin\<close> and \<^verbatim>\<open>np.argmax\<close> scan the flattened array once, keep the index of the
  best element so far and replace it only by a strictly better one, so the first
  occurrence of the extremum wins.
\<close>

fun argmin_scan :: "int list \<Rightarrow> nat \<Rightarrow> nat \<Rightarrow> int \<Rightarrow> nat" where
  "argmin_scan [] i best bv = best"
| "argmin_scan (v # vs) i best bv =
     (if v < bv then argmin_scan vs (Suc i) i v else argmin_scan vs (Suc i) best bv)"

fun argmax_scan :: "int list \<Rightarrow> nat \<Rightarrow> nat \<Rightarrow> int \<Rightarrow> nat" where
  "argmax_scan [] i best bv = best"
| "argmax_scan (v # vs) i best bv =
     (if bv < v then argmax_scan vs (Suc i) i v else argmax_scan vs (Suc i) best bv)"

definition argmin :: "int list \<Rightarrow> error + nat" where
  "argmin vs = (case vs of [] \<Rightarrow> Inl ValueError | v # rest \<Rightarrow> Inr (argmin_scan rest 1 0 v))"

definition argmax :: "int list \<Rightarrow> error + nat" where
  "argmax vs = (case vs of [] \<Rightarrow> Inl ValueError | v # rest \<Rightarrow> Inr (argmax_scan rest 1 0 v))"

text \<open>
  \<^verbatim>\<open>pts.sum(axis=1)\<close>: the row sums \<open>x + y\<close>. numpy adds \<^verbatim>\<open>int32\<close> values in 64 bits,
  which the sum of two of them does not leave.
\<close>

definition coord_sum :: "point \<Rightarrow> int" where
  "coord_sum p = fst p + snd p"

text \<open>
  \<^verbatim>\<open>np.diff(pts, axis=1)\<close>: column 1 minus column 0 of each row, that is \<open>y - x\<close>. The
  result keeps the type of the array, so the difference wraps around at 32 bits.
\<close>

definition wrap32 :: "int \<Rightarrow> int" where
  "wrap32 v = (v + 2 ^ 31) mod 2 ^ 32 - 2 ^ 31"

definition coord_diff :: "point \<Rightarrow> int" where
  "coord_diff p = wrap32 (snd p - fst p)"

text \<open>
  \<^verbatim>\<open>float32\<close> has 24 bits of mantissa. An integer below \<open>2 ^ 24\<close> in magnitude is a
  \<^verbatim>\<open>float32\<close> value; a larger one is rounded to the nearest multiple of the spacing
  \<open>2 ^ (e - 23)\<close> of its binade, \<open>e\<close> being the position of its leading bit, a tie going
  to the even multiple. Every \<^verbatim>\<open>float32\<close> value that the module computes before the
  square root is an integer, and the model keeps it as that integer.
\<close>

fun floorlog2 :: "nat \<Rightarrow> nat" where
  "floorlog2 n = (if n < 2 then 0 else Suc (floorlog2 (n div 2)))"

declare floorlog2.simps [simp del]

definition f32_round :: "int \<Rightarrow> int" where
  "f32_round c =
     (let a = nat \<bar>c\<bar>; e = floorlog2 a
      in if e \<le> 23 then c
         else (let q = 2 ^ (e - 23); d = a div q; r = a mod q;
                   m = (if 2 * r < q then d else if q < 2 * r then d + 1
                        else if even d then d else d + 1)
               in sgn c * int (m * q)))"

text \<open>A row of \<^verbatim>\<open>int32\<close> written into the \<^verbatim>\<open>float32\<close> array \<^verbatim>\<open>rect\<close>.\<close>

definition f32_point :: "point \<Rightarrow> point" where
  "f32_point p = (f32_round (fst p), f32_round (snd p))"

section \<open>order_points\<close>

definition order_points :: "point list \<Rightarrow> error + quad" where
  "order_points pts =
     (let s = map coord_sum pts in
      case argmin s of Inl e \<Rightarrow> Inl e | Inr i0 \<Rightarrow>
      case argmax s of Inl e \<Rightarrow> Inl e | Inr i2 \<Rightarrow>
      let diff = map coord_diff pts in
      case argmin diff of Inl e \<Rightarrow> Inl e | Inr i1 \<Rightarrow>
      case argmax diff of Inl e \<Rightarrow> Inl e | Inr i3 \<Rightarrow>
      Inr \<lparr>tl_pt = f32_point (pts ! i0), tr_pt = f32_point (pts ! i1),
           br_pt = f32_point (pts ! i2), bl_pt = f32_point (pts ! i3)\<rparr>)"

section \<open>The OpenCV interface\<close>

text \<open>
  The calls into \<^verbatim>\<open>cv2\<close> and \<^verbatim>\<open>imutils\<close> are not code of this module. They are taken as
  parameters: a record of functions on pixel contents \<open>'px\<close> and transform matrices \<open>'m\<close>.
  \<^verbatim>\<open>findContours\<close> stands for \<^verbatim>\<open>cv2.findContours\<close> with the fixed mode arguments followed
  by \<^verbatim>\<open>imutils.grab_contours\<close>. \<^verbatim>\<open>drawContours\<close> gives the pixel contents after the
  drawing; that OpenCV draws into the buffer it is given is part of \<open>rectangle\<close> below.
\<close>

record ('px, 'm) cv2 =
  cvtColor :: "'px \<Rightarrow> 'px"
  Canny :: "'px \<Rightarrow> int \<Rightarrow> int \<Rightarrow> 'px"
  findContours :: "'px \<Rightarrow> contour list"
  contourArea :: "contour \<Rightarrow> real"
  arcLength :: "contour \<Rightarrow> bool \<Rightarrow> real"
  approxPolyDP :: "contour \<Rightarrow> real \<Rightarrow> bool \<Rightarrow> contour"
  isContourConvex :: "contour \<Rightarrow> bool"
  drawContours :: "'px \<Rightarrow> contour list \<Rightarrow> int \<Rightarrow> int \<times> int \<times> int \<Rightarrow> int \<Rightarrow> 'px"
  getPerspectiveTransform :: "quad \<Rightarrow> quad \<Rightarrow> 'm"
  warpPerspective :: "'px \<Rightarrow> 'm \<Rightarrow> int \<times> int \<Rightarrow> 'px"

section \<open>four_point_transform\<close>

text \<open>
  The side lengths are computed on the \<^verbatim>\<open>float32\<close> rows of \<^verbatim>\<open>rect\<close>, and every operation
  rounds its result to \<^verbatim>\<open>float32\<close>: the difference of two coordinates, its square and the
  sum of the two squares, all of them integers. (The exponent \<^verbatim>\<open>2\<close> is a Python integer,
  which under the promotion rules of numpy 2 leaves the type \<^verbatim>\<open>float32\<close>.)
\<close>

definition f32_sub :: "int \<Rightarrow> int \<Rightarrow> int" where
  "f32_sub a b = f32_round (a - b)"

definition f32_square :: "int \<Rightarrow> int" where
  "f32_square d = f32_round (d * d)"

definition f32_add :: "int \<Rightarrow> int \<Rightarrow> int" where
  "f32_add a b = f32_round (a + b)"

text \<open>\<^verbatim>\<open>((p[0] - q[0]) ** 2) + ((p[1] - q[1]) ** 2)\<close>, the argument of \<^verbatim>\<open>np.sqrt\<close>.\<close>

definition f32_sq_dist :: "point \<Rightarrow> point \<Rightarrow> int" where
  "f32_sq_dist p q =
     f32_add (f32_square (f32_sub (fst p) (fst q))) (f32_square (f32_sub (snd p) (snd q)))"

text \<open>
  \<open>isqrt\<close> is the integer square root, computed from that of a quarter of its argument.
\<close>

fun isqrt :: "nat \<Rightarrow> nat" where
  "isqrt n =
     (if n < 4 then (if n = 0 then 0 else 1)
      else (let r = 2 * isqrt (n div 4) in if (r + 1) * (r + 1) \<le> n then r + 1 else r))"

declare isqrt.simps [simp del]

text \<open>
  \<^verbatim>\<open>int(np.sqrt(v))\<close> for a \<^verbatim>\<open>float32\<close> \<open>v\<close> that is a natural number: the square root,
  rounded to \<^verbatim>\<open>float32\<close> and then truncated. The root is not an integer, so the two steps
  are taken together. With \<open>k\<close> the integer square root, the root lies in the binade of
  \<open>k\<close>. Up to \<open>e = 23\<close> the \<^verbatim>\<open>float32\<close> nearest to the root is \<open>M / 2 ^ t\<close>, where \<open>M\<close> is the
  integer nearest to the root of \<open>v * 4 ^ t\<close> (never a tie); beyond, the \<^verbatim>\<open>float32\<close> values
  are the multiples of \<open>q\<close>, and the root is rounded to one of the two around it.
\<close>

definition int_f32_sqrt :: "int \<Rightarrow> int" where
  "int_f32_sqrt v =
     (let s = nat v; k = isqrt s; e = floorlog2 k
      in if e \<le> 23 then
           (let t = 23 - e; N = s * 4 ^ t; r = isqrt N;
                M = (if r * r + r < N then r + 1 else r)
            in int (M div 2 ^ t))
         else
           (let q = 2 ^ (e - 23); lo = (k div q) * q; mid2 = 2 * lo + q
            in int (if mid2 * mid2 < 4 * s then lo + q
                    else if 4 * s < mid2 * mid2 then lo
                    else if even (k div q) then lo else lo + q)))"

definition maxWidth :: "quad \<Rightarrow> int" where
  "maxWidth rect =
     (let widthA = f32_sq_dist (br_pt rect) (bl_pt rect);
          widthB = f32_sq_dist (tr_pt rect) (tl_pt rect)
      in max (int_f32_sqrt widthA) (int_f32_sqrt widthB))"

definition maxHeight :: "quad \<Rightarrow> int" where
  "maxHeight rect =
     (let heightA = f32_sq_dist (tr_pt rect) (br_pt rect);
          heightB = f32_sq_dist (tl_pt rect) (bl_pt rect)
      in max (int_f32_sqrt heightA) (int_f32_sqrt heightB))"

text \<open>The destination corners, a \<^verbatim>\<open>float32\<close> array built from integers.\<close>

definition dst_points :: "int \<Rightarrow> int \<Rightarrow> quad" where
  "dst_points w h =
     \<lparr>tl_pt = (0, 0), tr_pt = (f32_round (w - 1), 0),
      br_pt = (f32_round (w - 1), f32_round (h - 1)), bl_pt = (0, f32_round (h - 1))\<rparr>"

definition four_point_transform :: "('px, 'm) cv2 \<Rightarrow> 'px \<Rightarrow> point list \<Rightarrow> error + 'px" where
  "four_point_transform cv img pts =
     (case order_points pts of
        Inl e \<Rightarrow> Inl e
      | Inr rect \<Rightarrow>
          (let w = maxWidth rect;
               h = maxHeight rect;
               dst = dst_points w h;
               M = getPerspectiveTransform cv rect dst
           in Inr (warpPerspective cv img M (w, h))))"

section \<open>rectangle\<close>

text \<open>
  \<^verbatim>\<open>sorted(cnts, key=cv2.contourArea, reverse=True)\<close>. CPython sorts with
  \<^verbatim>\<open>reverse=True\<close> by reversing the list, sorting it stably in ascending order and
  reversing the result.
\<close>

definition sorted_reverse :: "('a \<Rightarrow> real) \<Rightarrow> 'a list \<Rightarrow> 'a list" where
  "sorted_reverse key xs = rev (sort_key key (rev xs))"

text \<open>
  The loop over the contours. It leaves at the first contour whose approximation has
  four points and is convex; \<open>None\<close> is \<^verbatim>\<open>screenCnt\<close> staying \<^verbatim>\<open>None\<close>.
\<close>

fun scan_contours :: "('px, 'm) cv2 \<Rightarrow> contour list \<Rightarrow> contour option" where
  "scan_contours cv [] = None"
| "scan_contours cv (c # cs) =
     (let peri = arcLength cv c True;
          approx = approxPolyDP cv c (0.02 * peri) True
      in if length approx = 4 \<and> isContourConvex cv approx then Some approx
         else scan_contours cv cs)"

text \<open>
  Images are numpy arrays that Python passes by reference, and \<^verbatim>\<open>cv2.drawContours\<close>
  draws into the array it is given and returns that same array. The store is a list of
  buffers, an image is the index of its buffer, and a new array is appended at the end.
  The intermediate arrays \<^verbatim>\<open>gray\<close> and \<^verbatim>\<open>edged\<close> never leave the function and are kept
  as values. A Python reference always refers to an object, so \<open>rectangle\<close> is called
  with \<open>img < length h\<close>; the theorems that read or write the buffer assume it.
\<close>

type_synonym addr = nat

type_synonym 'px store = "'px list"

definition alloc :: "'px store \<Rightarrow> 'px \<Rightarrow> 'px store \<times> addr" where
  "alloc h v = (h @ [v], length h)"

definition rectangle ::
  "('px, 'm) cv2 \<Rightarrow> 'px store \<Rightarrow> addr \<Rightarrow> error + ('px store \<times> addr \<times> addr)" where
  "rectangle cv h img =
     (let gray = cvtColor cv (h ! img);
          edged = Canny cv gray 50 100;
          cnts = findContours cv edged;
          cnts = take 5 (sorted_reverse (contourArea cv) cnts)
      in case scan_contours cv cnts of
           Some screenCnt \<Rightarrow>
             (let h1 = h[img := drawContours cv (h ! img) [screenCnt] 0 (0, 255, 0) 3];
                  contour_img = img
              in case four_point_transform cv (h1 ! img) screenCnt of
                   Inl e \<Rightarrow> Inl e
                 | Inr warped \<Rightarrow>
                     (let (h2, warped_img) = alloc h1 warped
                      in Inr (h2, contour_img, warped_img)))
         | None \<Rightarrow> Inr (h, img, img))"

section \<open>Notions used in the statements\<close>

subsection \<open>First extremal position\<close>

text \<open>
  \<open>first_min vs k\<close>: position \<open>k\<close> holds a least element of \<open>vs\<close> and every earlier
  element is strictly greater, so \<open>k\<close> is the first position of the minimum. \<open>first_max\<close>
  is the same for the maximum.
\<close>

definition first_min :: "int list \<Rightarrow> nat \<Rightarrow> bool" where
  "first_min vs k \<longleftrightarrow>
     k < length vs \<and> (\<forall>w \<in> set vs. vs ! k \<le> w) \<and> (\<forall>w \<in> set (take k vs). vs ! k < w)"

definition first_max :: "int list \<Rightarrow> nat \<Rightarrow> bool" where
  "first_max vs k \<longleftrightarrow>
     k < length vs \<and> (\<forall>w \<in> set vs. w \<le> vs ! k) \<and> (\<forall>w \<in> set (take k vs). w < vs ! k)"

text \<open>The difference in the order the specification writes it, \<open>x - y\<close>.\<close>

definition x_minus_y :: "point \<Rightarrow> int" where
  "x_minus_y p = fst p - snd p"

definition minimizes :: "(point \<Rightarrow> int) \<Rightarrow> point list \<Rightarrow> point \<Rightarrow> bool" where
  "minimizes f pts p \<longleftrightarrow> p \<in> set pts \<and> (\<forall>q \<in> set pts. f p \<le> f q)"

definition maximizes :: "(point \<Rightarrow> int) \<Rightarrow> point list \<Rightarrow> point \<Rightarrow> bool" where
  "maximizes f pts p \<longleftrightarrow> p \<in> set pts \<and> (\<forall>q \<in> set pts. f q \<le> f p)"

text \<open>
  The entries of the input that attain an extremum, with repetitions. The four extremal
  choices of \<open>order_points\<close> are unique when each of the four lists has one entry.
\<close>

definition minimizers :: "(point \<Rightarrow> int) \<Rightarrow> point list \<Rightarrow> point list" where
  "minimizers f pts = filter (minimizes f pts) pts"

definition maximizers :: "(point \<Rightarrow> int) \<Rightarrow> point list \<Rightarrow> point list" where
  "maximizers f pts = filter (maximizes f pts) pts"

definition unique_extremes :: "point list \<Rightarrow> bool" where
  "unique_extremes pts \<longleftrightarrow>
     length (minimizers coord_sum pts) = 1 \<and> length (maximizers coord_sum pts) = 1 \<and>
     length (minimizers coord_diff pts) = 1 \<and> length (maximizers coord_diff pts) = 1"

text \<open>The four roles of an ordered quadrilateral, in the order \<open>tl, tr, br, bl\<close>.\<close>

definition roles :: "quad \<Rightarrow> point list" where
  "roles r = [tl_pt r, tr_pt r, br_pt r, bl_pt r]"

subsection \<open>Distances and degenerate corner sets\<close>

text \<open>
  Coordinates below \<open>2 ^ 24\<close> in magnitude are \<^verbatim>\<open>float32\<close> values, and their differences
  do not wrap.
\<close>

definition exact_point :: "point \<Rightarrow> bool" where
  "exact_point p \<longleftrightarrow> \<bar>fst p\<bar> < 2 ^ 24 \<and> \<bar>snd p\<bar> < 2 ^ 24"

text \<open>The square of the Euclidean distance, in exact arithmetic.\<close>

definition sq_dist :: "point \<Rightarrow> point \<Rightarrow> int" where
  "sq_dist p q = (fst p - fst q)\<^sup>2 + (snd p - snd q)\<^sup>2"

text \<open>The Euclidean distance of the specification, a real number.\<close>

definition distance :: "point \<Rightarrow> point \<Rightarrow> real" where
  "distance p q = sqrt (real_of_int (sq_dist p q))"

text \<open>
  Twice the signed area of the triangle \<open>p q r\<close>: zero exactly when the three points lie
  on one line.
\<close>

definition turn :: "point \<Rightarrow> point \<Rightarrow> point \<Rightarrow> int" where
  "turn p q r = (fst q - fst p) * (snd r - snd q) - (snd q - snd p) * (fst r - fst q)"

text \<open>
  A corner set is degenerate, in the words of the specification, when it has duplicate
  points or collinear points (three different corners on one line).
\<close>

definition degenerate :: "point list \<Rightarrow> bool" where
  "degenerate pts \<longleftrightarrow>
     \<not> distinct pts \<or>
     (\<exists>p \<in> set pts. \<exists>q \<in> set pts. \<exists>r \<in> set pts.
        p \<noteq> q \<and> q \<noteq> r \<and> p \<noteq> r \<and> turn p q r = 0)"

subsection \<open>The selection of the quadrilateral\<close>

text \<open>
  The body of the loop of \<open>rectangle\<close>, one contour at a time: its polygon approximation
  and the test the loop makes on it.
\<close>

definition approx_of :: "('px, 'm) cv2 \<Rightarrow> contour \<Rightarrow> contour" where
  "approx_of cv c = approxPolyDP cv c (0.02 * arcLength cv c True) True"

definition accepted :: "('px, 'm) cv2 \<Rightarrow> contour \<Rightarrow> bool" where
  "accepted cv c \<longleftrightarrow> length (approx_of cv c) = 4 \<and> isContourConvex cv (approx_of cv c)"

text \<open>The contours after line 91: ranked by area, largest first, and cut to five.\<close>

definition ranked :: "('px, 'm) cv2 \<Rightarrow> contour list \<Rightarrow> contour list" where
  "ranked cv cnts = sorted_reverse (contourArea cv) cnts"

definition candidates :: "('px, 'm) cv2 \<Rightarrow> contour list \<Rightarrow> contour list" where
  "candidates cv cnts = take 5 (ranked cv cnts)"

text \<open>The contours that \<open>rectangle\<close> extracts from the image at \<open>img\<close>.\<close>

definition extracted :: "('px, 'm) cv2 \<Rightarrow> 'px \<Rightarrow> contour list" where
  "extracted cv px = findContours cv (Canny cv (cvtColor cv px) 50 100)"

section \<open>An interpretation of the interface for concrete runs\<close>

text \<open>
  The theorems below hold for every interpretation of the OpenCV interface. To run the
  pipeline on a concrete input, the interface is interpreted on pictures that are given
  by the closed boundaries they show: every image operation is recorded as a term, the
  contours of a picture are the boundaries it was made of, area and convexity are those
  of the polygon, the perimeter adds the edge lengths truncated to integers, and the
  approximation of a polygon is itself.
  This is a stand-in chosen for evaluation, not a model of OpenCV.
\<close>

datatype picture =
    Scene "contour list"
  | Gray picture
  | Edges picture int int
  | Outlined picture "contour list" int "int \<times> int \<times> int" int
  | Warped picture "quad \<times> quad" "int \<times> int"

fun contours_of :: "picture \<Rightarrow> contour list" where
  "contours_of (Scene cs) = cs"
| "contours_of (Gray p) = contours_of p"
| "contours_of (Edges p lo hi) = contours_of p"
| "contours_of (Outlined p cs i col t) = contours_of p @ cs"
| "contours_of (Warped p M sz) = []"

text \<open>
  The size of a picture, as width and height. A warp has the size it was asked for; asked
  for an empty size, it has the size of its source.
\<close>

fun picture_size :: "picture \<Rightarrow> int \<times> int" where
  "picture_size (Scene cs) = (640, 480)"
| "picture_size (Gray p) = picture_size p"
| "picture_size (Edges p lo hi) = picture_size p"
| "picture_size (Outlined p cs i col t) = picture_size p"
| "picture_size (Warped p M sz) = (if 1 \<le> fst sz \<and> 1 \<le> snd sz then sz else picture_size p)"

fun cross_sum :: "point list \<Rightarrow> int" where
  "cross_sum (p # q # ps) = fst p * snd q - fst q * snd p + cross_sum (q # ps)"
| "cross_sum ps = 0"

definition polygon_area :: "contour \<Rightarrow> real" where
  "polygon_area c = (case c of [] \<Rightarrow> 0 | p # ps \<Rightarrow> \<bar>real_of_int (cross_sum (c @ [p]))\<bar> / 2)"

fun path_length :: "point list \<Rightarrow> real" where
  "path_length (p # q # ps) = real (isqrt (nat (sq_dist p q))) + path_length (q # ps)"
| "path_length ps = 0"

definition polygon_perimeter :: "contour \<Rightarrow> bool \<Rightarrow> real" where
  "polygon_perimeter c cl =
     (case c of [] \<Rightarrow> 0 | p # ps \<Rightarrow> path_length (if cl then c @ [p] else c))"

fun turns :: "point list \<Rightarrow> int list" where
  "turns (p # q # r # ps) = turn p q r # turns (q # r # ps)"
| "turns ps = []"

definition polygon_convex :: "contour \<Rightarrow> bool" where
  "polygon_convex c =
     (let ts = turns (c @ take 2 c) in (\<forall>t \<in> set ts. 0 \<le> t) \<or> (\<forall>t \<in> set ts. t \<le> 0))"

definition sym_cv :: "(picture, quad \<times> quad) cv2" where
  "sym_cv =
     \<lparr>cvtColor = Gray, Canny = Edges, findContours = contours_of,
      contourArea = polygon_area, arcLength = polygon_perimeter,
      approxPolyDP = (\<lambda>c eps cl. c), isContourConvex = polygon_convex,
      drawContours = Outlined, getPerspectiveTransform = Pair,
      warpPerspective = Warped\<rparr>"

section \<open>Properties of the machine arithmetic\<close>

lemma wrap32_exact: "- (2 ^ 31) \<le> v \<Longrightarrow> v < 2 ^ 31 \<Longrightarrow> wrap32 v = v"
  by (simp add: wrap32_def)

lemma floorlog2_le: "n < 2 ^ Suc k \<Longrightarrow> floorlog2 n \<le> k"
proof (induction k arbitrary: n)
  case 0
  then show ?case by (subst floorlog2.simps) simp
next
  case (Suc k)
  show ?case
  proof (cases "n < 2")
    case True
    then show ?thesis by (subst floorlog2.simps) simp
  next
    case False
    from Suc.prems have "n div 2 < 2 ^ Suc k" by simp
    from Suc.IH[OF this] False show ?thesis by (subst floorlog2.simps) simp
  qed
qed

text \<open>An integer below \<open>2 ^ 24\<close> in magnitude is its own rounding.\<close>

lemma f32_round_exact: "\<bar>c\<bar> < 2 ^ 24 \<Longrightarrow> f32_round c = c"
proof -
  assume "\<bar>c\<bar> < 2 ^ 24"
  then have "nat \<bar>c\<bar> < 2 ^ Suc 23" by simp
  then have "floorlog2 (nat \<bar>c\<bar>) \<le> 23" by (rule floorlog2_le)
  then show ?thesis by (simp add: f32_round_def Let_def)
qed

lemma f32_point_exact: "exact_point p \<Longrightarrow> f32_point p = p"
  by (simp add: exact_point_def f32_point_def f32_round_exact)

lemma coord_diff_exact: "exact_point p \<Longrightarrow> coord_diff p = snd p - fst p"
proof -
  assume "exact_point p"
  then have "- (2 ^ 31) \<le> snd p - fst p" and "snd p - fst p < 2 ^ 31"
    by (simp_all add: exact_point_def abs_less_iff)
  then show ?thesis
    unfolding coord_diff_def by (rule wrap32_exact)
qed

lemma isqrt_bounds: "isqrt n * isqrt n \<le> n \<and> n < (isqrt n + 1) * (isqrt n + 1)"
proof (induction n rule: isqrt.induct)
  case (1 n)
  show ?case
  proof (cases "n < 4")
    case True
    then have eq: "isqrt n = (if n = 0 then 0 else 1)"
      by (subst isqrt.simps) simp
    from True show ?thesis
      unfolding eq by (cases "n = 0") simp_all
  next
    case False
    define s where "s = isqrt (n div 4)"
    from "1.IH"[OF False] have ih: "s * s \<le> n div 4" "n div 4 < (s + 1) * (s + 1)"
      by (simp_all add: s_def)
    have lo: "(2 * s) * (2 * s) \<le> n"
    proof -
      have "(2 * s) * (2 * s) = 4 * (s * s)" by simp
      also have "\<dots> \<le> 4 * (n div 4)" using ih(1) by simp
      also have "\<dots> \<le> n" by simp
      finally show ?thesis .
    qed
    have hi: "n < (2 * s + 2) * (2 * s + 2)"
    proof -
      have "n < 4 * (n div 4 + 1)" by simp
      also have "\<dots> \<le> 4 * ((s + 1) * (s + 1))" using ih(2) by simp
      also have "\<dots> = (2 * s + 2) * (2 * s + 2)" by simp
      finally show ?thesis .
    qed
    have eq: "isqrt n = (if (2 * s + 1) * (2 * s + 1) \<le> n then 2 * s + 1 else 2 * s)"
      using False by (subst isqrt.simps) (simp add: s_def Let_def)
    show ?thesis
    proof (cases "(2 * s + 1) * (2 * s + 1) \<le> n")
      case True
      with eq have "isqrt n = 2 * s + 1" by simp
      with True hi show ?thesis by simp
    next
      case False
      with eq have "isqrt n = 2 * s" by simp
      with False lo show ?thesis by simp
    qed
  qed
qed

lemma le_isqrt: "a * a \<le> n \<Longrightarrow> a \<le> isqrt n"
proof (rule ccontr)
  assume a: "a * a \<le> n" and b: "\<not> a \<le> isqrt n"
  from b have "isqrt n + 1 \<le> a" by linarith
  from mult_le_mono[OF this this] have "(isqrt n + 1) * (isqrt n + 1) \<le> a * a" .
  with isqrt_bounds[of n] a show False by linarith
qed

lemma isqrt_less: "n < a * a \<Longrightarrow> isqrt n < a"
proof (rule ccontr)
  assume a: "n < a * a" and b: "\<not> isqrt n < a"
  from b have "a \<le> isqrt n" by linarith
  from mult_le_mono[OF this this] have "a * a \<le> isqrt n * isqrt n" .
  with isqrt_bounds[of n] a show False by linarith
qed

lemma isqrt_floor: "int (isqrt n) = \<lfloor>sqrt (real n)\<rfloor>"
proof -
  have lo: "real (isqrt n) \<le> sqrt (real n)"
  proof (rule real_le_rsqrt)
    have "real (isqrt n * isqrt n) \<le> real n"
      using isqrt_bounds[of n] by (simp only: of_nat_le_iff)
    then show "(real (isqrt n))\<^sup>2 \<le> real n"
      by (simp add: power2_eq_square)
  qed
  have hi: "sqrt (real n) < real (isqrt n) + 1"
  proof (rule real_less_lsqrt)
    show "0 \<le> real (isqrt n) + 1" by simp
    have "real n < real ((isqrt n + 1) * (isqrt n + 1))"
      using isqrt_bounds[of n] by (simp only: of_nat_less_iff)
    then show "real n < (real (isqrt n) + 1)\<^sup>2"
      by (simp add: power2_eq_square algebra_simps)
  qed
  have "\<lfloor>sqrt (real n)\<rfloor> = int (isqrt n)"
    by (rule floor_unique) (use lo hi in simp_all)
  then show ?thesis by simp
qed

lemma isqrt_pos_iff: "1 \<le> isqrt n \<longleftrightarrow> 1 \<le> n"
proof
  assume "1 \<le> isqrt n"
  then have "1 \<le> isqrt n * isqrt n" by (cases "isqrt n") simp_all
  with isqrt_bounds[of n] show "1 \<le> n" by linarith
next
  assume n: "1 \<le> n"
  show "1 \<le> isqrt n"
  proof (rule ccontr)
    assume "\<not> 1 \<le> isqrt n"
    then have "isqrt n = 0" by simp
    with isqrt_bounds[of n] have "n < 1" by simp
    with n show False by simp
  qed
qed

text \<open>
  The mantissa of the rounded root, divided by the scale \<open>P\<close>, is the integer square
  root as long as the scale is larger than the root.
\<close>

lemma rounded_root_div:
  assumes lo: "k * k \<le> s" and hi: "s < (k + 1) * (k + 1)" and P: "k + 1 \<le> P"
  shows "(if isqrt (s * (P * P)) * isqrt (s * (P * P)) + isqrt (s * (P * P)) < s * (P * P)
          then isqrt (s * (P * P)) + 1 else isqrt (s * (P * P))) div P = k"
proof -
  define N where "N = s * (P * P)"
  define r where "r = isqrt N"
  define A where "A = (k + 1) * P"
  from P have Ppos: "0 < P" by simp
  have "(k * P) * (k * P) = (k * k) * (P * P)" by (simp add: algebra_simps)
  also have "\<dots> \<le> N" unfolding N_def using lo by (rule mult_le_mono1)
  finally have kr: "k * P \<le> r" unfolding r_def by (rule le_isqrt)
  have AA: "A * A = ((k + 1) * (k + 1)) * (P * P)" by (simp add: A_def algebra_simps)
  from hi have "s + 1 \<le> (k + 1) * (k + 1)" by simp
  then have "(s + 1) * (P * P) \<le> ((k + 1) * (k + 1)) * (P * P)" by (rule mult_le_mono1)
  then have NA: "N + P * P \<le> A * A" by (simp add: N_def AA algebra_simps)
  with Ppos have "N < A * A"
    by (metis add.right_neutral less_le_trans mult_pos_pos nat_add_left_cancel_less)
  then have rA: "r < A" unfolding r_def by (rule isqrt_less)
  have M: "(if r * r + r < N then r + 1 else r) < A"
  proof (rule ccontr)
    assume "\<not> (if r * r + r < N then r + 1 else r) < A"
    with rA have big: "r * r + r < N" and "A \<le> r + 1"
      by (auto split: if_splits)
    with rA have A: "A = r + 1" by simp
    have "A * A = r * r + r + A" by (simp add: A)
    with big NA have "P * P < A" by linarith
    then have "P * P < (k + 1) * P" by (simp add: A_def)
    then have "P < k + 1" by (simp only: mult_less_cancel2)
    with P show False by simp
  qed
  have "k * P \<le> (if r * r + r < N then r + 1 else r)"
    using kr by simp
  with M have "(if r * r + r < N then r + 1 else r) div P = k"
    unfolding A_def by (intro div_nat_eqI) (simp_all add: mult.commute)
  then show ?thesis unfolding r_def N_def .
qed

text \<open>
  Below \<open>2 ^ 24\<close> the rounding of the root never reaches the next integer: the code
  computes the integer square root.
\<close>

lemma int_f32_sqrt_exact:
  assumes "0 \<le> v" and "v < 2 ^ 24"
  shows "int_f32_sqrt v = int (isqrt (nat v))"
proof -
  define s where "s = nat v"
  define k where "k = isqrt s"
  define e where "e = floorlog2 k"
  from assms have s: "s < 2 ^ 24" by (simp add: s_def)
  have kk: "k * k \<le> s" "s < (k + 1) * (k + 1)"
    using isqrt_bounds[of s] by (simp_all add: k_def)
  have "k < 2 ^ 12"
  proof (rule ccontr)
    assume "\<not> k < 2 ^ 12"
    then have "(2 ^ 12) * (2 ^ 12) \<le> k * k" by (intro mult_le_mono) simp_all
    with kk(1) s show False by simp
  qed
  then have k: "k + 1 \<le> 2 ^ 12" by simp
  from \<open>k < 2 ^ 12\<close> have "k < 2 ^ Suc 11" by simp
  then have e: "e \<le> 11" unfolding e_def by (rule floorlog2_le)
  then have t: "12 \<le> 23 - e" by simp
  have "(2::nat) ^ 12 \<le> 2 ^ (23 - e)"
    using t by (intro power_increasing) simp_all
  with k have P: "k + 1 \<le> 2 ^ (23 - e)" by linarith
  have four: "(4::nat) ^ (23 - e) = 2 ^ (23 - e) * 2 ^ (23 - e)"
    by (simp add: power_mult_distrib[symmetric])
  from e have "e \<le> 23" by simp
  then have "int_f32_sqrt v =
      int ((if isqrt (s * 4 ^ (23 - e)) * isqrt (s * 4 ^ (23 - e)) + isqrt (s * 4 ^ (23 - e))
                < s * 4 ^ (23 - e)
            then isqrt (s * 4 ^ (23 - e)) + 1 else isqrt (s * 4 ^ (23 - e))) div 2 ^ (23 - e))"
    by (simp add: int_f32_sqrt_def Let_def s_def k_def e_def)
  also have "\<dots> = int k"
    unfolding four using rounded_root_div[OF kk P] by simp
  finally show ?thesis by (simp add: k_def s_def)
qed

lemma int_f32_sqrt_nonneg: "0 \<le> int_f32_sqrt v"
  by (simp add: int_f32_sqrt_def Let_def)

section \<open>Properties of the numpy primitives\<close>

lemma argmin_scan_first_min:
  assumes "first_min pre best" and "bv = pre ! best" and "i = length pre"
  shows "first_min (pre @ vs) (argmin_scan vs i best bv)"
  using assms
proof (induction vs arbitrary: pre best bv i)
  case Nil
  then show ?case by simp
next
  case (Cons v vs)
  show ?case
  proof (cases "v < bv")
    case True
    have "first_min (pre @ [v]) (length pre)"
      using Cons.prems True by (auto simp: first_min_def nth_append)
    from Cons.IH[OF this, of v "Suc i"] Cons.prems True show ?thesis
      by simp
  next
    case False
    have "first_min (pre @ [v]) best"
      using Cons.prems False by (auto simp: first_min_def nth_append)
    moreover have "bv = (pre @ [v]) ! best"
      using Cons.prems by (simp add: first_min_def nth_append)
    ultimately show ?thesis
      using Cons.IH[of "pre @ [v]" best bv "Suc i"] Cons.prems False by simp
  qed
qed

lemma argmax_scan_first_max:
  assumes "first_max pre best" and "bv = pre ! best" and "i = length pre"
  shows "first_max (pre @ vs) (argmax_scan vs i best bv)"
  using assms
proof (induction vs arbitrary: pre best bv i)
  case Nil
  then show ?case by simp
next
  case (Cons v vs)
  show ?case
  proof (cases "bv < v")
    case True
    have "first_max (pre @ [v]) (length pre)"
      using Cons.prems True by (auto simp: first_max_def nth_append)
    from Cons.IH[OF this, of v "Suc i"] Cons.prems True show ?thesis
      by simp
  next
    case False
    have "first_max (pre @ [v]) best"
      using Cons.prems False by (auto simp: first_max_def nth_append)
    moreover have "bv = (pre @ [v]) ! best"
      using Cons.prems by (simp add: first_max_def nth_append)
    ultimately show ?thesis
      using Cons.IH[of "pre @ [v]" best bv "Suc i"] Cons.prems False by simp
  qed
qed

lemma argmin_first_min: "vs \<noteq> [] \<Longrightarrow> \<exists>k. argmin vs = Inr k \<and> first_min vs k"
proof (cases vs)
  case Nil
  assume "vs \<noteq> []"
  with Nil show ?thesis by simp
next
  case (Cons v rest)
  have "first_min [v] 0" by (simp add: first_min_def)
  from argmin_scan_first_min[OF this, of v 1 rest] Cons show ?thesis
    by (simp add: argmin_def)
qed

lemma argmax_first_max: "vs \<noteq> [] \<Longrightarrow> \<exists>k. argmax vs = Inr k \<and> first_max vs k"
proof (cases vs)
  case Nil
  assume "vs \<noteq> []"
  with Nil show ?thesis by simp
next
  case (Cons v rest)
  have "first_max [v] 0" by (simp add: first_max_def)
  from argmax_scan_first_max[OF this, of v 1 rest] Cons show ?thesis
    by (simp add: argmax_def)
qed

text \<open>
  Without wrap-around, the first position of the minimum of \<open>y - x\<close> is that of the
  maximum of \<open>x - y\<close>.
\<close>

lemma map_coord_diff_exact:
  assumes "\<forall>p \<in> set pts. exact_point p"
  shows "map coord_diff pts = map (\<lambda>p. - x_minus_y p) pts"
  using assms by (simp add: coord_diff_exact x_minus_y_def)

lemma first_min_neg_iff: "first_min (map (\<lambda>p. - f p) pts) k \<longleftrightarrow> first_max (map f pts) k"
  by (cases "k < length pts") (simp_all add: first_min_def first_max_def take_map)

lemma first_max_neg_iff: "first_max (map (\<lambda>p. - f p) pts) k \<longleftrightarrow> first_min (map f pts) k"
  by (cases "k < length pts") (simp_all add: first_min_def first_max_def take_map)

section \<open>Properties of order_points\<close>

lemma order_points_empty: "order_points [] = Inl ValueError"
  by (simp add: order_points_def argmin_def)

lemma order_points_indices:
  assumes "pts \<noteq> []"
  shows "\<exists>i0 i1 i2 i3.
           order_points pts =
             Inr \<lparr>tl_pt = f32_point (pts ! i0), tr_pt = f32_point (pts ! i1),
                  br_pt = f32_point (pts ! i2), bl_pt = f32_point (pts ! i3)\<rparr> \<and>
           first_min (map coord_sum pts) i0 \<and> first_min (map coord_diff pts) i1 \<and>
           first_max (map coord_sum pts) i2 \<and> first_max (map coord_diff pts) i3"
proof -
  from assms have ne: "map coord_sum pts \<noteq> []" "map coord_diff pts \<noteq> []" by simp_all
  obtain i0 where i0: "argmin (map coord_sum pts) = Inr i0" "first_min (map coord_sum pts) i0"
    using argmin_first_min[OF ne(1)] by blast
  obtain i2 where i2: "argmax (map coord_sum pts) = Inr i2" "first_max (map coord_sum pts) i2"
    using argmax_first_max[OF ne(1)] by blast
  obtain i1 where i1: "argmin (map coord_diff pts) = Inr i1" "first_min (map coord_diff pts) i1"
    using argmin_first_min[OF ne(2)] by blast
  obtain i3 where i3: "argmax (map coord_diff pts) = Inr i3" "first_max (map coord_diff pts) i3"
    using argmax_first_max[OF ne(2)] by blast
  have "order_points pts =
          Inr \<lparr>tl_pt = f32_point (pts ! i0), tr_pt = f32_point (pts ! i1),
               br_pt = f32_point (pts ! i2), bl_pt = f32_point (pts ! i3)\<rparr>"
    using i0(1) i1(1) i2(1) i3(1) by (simp add: order_points_def)
  with i0(2) i1(2) i2(2) i3(2) show ?thesis by blast
qed

text \<open>Evaluation on points with small coordinates.\<close>

lemmas order_points_eval =
  order_points_def argmin_def argmax_def coord_sum_def coord_diff_def wrap32_def
  f32_point_def f32_round_exact

text \<open>
  Claim C1, as the code has it. For every input of four points with coordinates below
  \<open>2 ^ 24\<close> in magnitude, \<open>order_points\<close> returns the four points at positions
  \<open>i0, i1, i2, i3\<close> of the input, where \<open>i0\<close> is the first position of the least \<open>x + y\<close>
  (top-left), \<open>i2\<close> the first position of the greatest \<open>x + y\<close> (bottom-right), \<open>i1\<close> the
  first position of the least \<open>y - x\<close>, which is the greatest \<open>x - y\<close> (top-right), and
  \<open>i3\<close> the first position of the greatest \<open>y - x\<close>, which is the least \<open>x - y\<close>
  (bottom-left).
\<close>

theorem order_points_first_extremes:
  assumes "length pts = 4" and "\<forall>p \<in> set pts. exact_point p"
  shows "\<exists>i0 i1 i2 i3.
           order_points pts =
             Inr \<lparr>tl_pt = pts ! i0, tr_pt = pts ! i1, br_pt = pts ! i2, bl_pt = pts ! i3\<rparr> \<and>
           first_min (map coord_sum pts) i0 \<and> first_max (map coord_sum pts) i2 \<and>
           first_max (map x_minus_y pts) i1 \<and> first_min (map x_minus_y pts) i3"
proof -
  from assms(1) have "pts \<noteq> []" by auto
  from order_points_indices[OF this] obtain i0 i1 i2 i3 where
    r: "order_points pts =
          Inr \<lparr>tl_pt = f32_point (pts ! i0), tr_pt = f32_point (pts ! i1),
               br_pt = f32_point (pts ! i2), bl_pt = f32_point (pts ! i3)\<rparr>"
    and i: "first_min (map coord_sum pts) i0" "first_min (map coord_diff pts) i1"
      "first_max (map coord_sum pts) i2" "first_max (map coord_diff pts) i3"
    by blast
  from i have len: "i0 < length pts" "i1 < length pts" "i2 < length pts" "i3 < length pts"
    by (simp_all add: first_min_def first_max_def)
  with assms(2) have "f32_point (pts ! i0) = pts ! i0" "f32_point (pts ! i1) = pts ! i1"
    "f32_point (pts ! i2) = pts ! i2" "f32_point (pts ! i3) = pts ! i3"
    by (simp_all add: f32_point_exact)
  with r have "order_points pts =
      Inr \<lparr>tl_pt = pts ! i0, tr_pt = pts ! i1, br_pt = pts ! i2, bl_pt = pts ! i3\<rparr>"
    by simp
  moreover from i(2,4) have "first_max (map x_minus_y pts) i1" "first_min (map x_minus_y pts) i3"
    unfolding map_coord_diff_exact[OF assms(2)] first_min_neg_iff first_max_neg_iff
    by simp_all
  ultimately show ?thesis using i(1,3) by blast
qed

theorem order_points_first_extremes_witness:
  "length [(0, 0), (10, 0), (10, 5), (0, 5) :: point] = 4 \<and>
   list_all exact_point [(0, 0), (10, 0), (10, 5), (0, 5)] \<and>
   (\<exists>i0 i1 i2 i3.
      order_points [(0, 0), (10, 0), (10, 5), (0, 5)] =
        Inr \<lparr>tl_pt = [(0, 0), (10, 0), (10, 5), (0, 5)] ! i0,
             tr_pt = [(0, 0), (10, 0), (10, 5), (0, 5)] ! i1,
             br_pt = [(0, 0), (10, 0), (10, 5), (0, 5)] ! i2,
             bl_pt = [(0, 0), (10, 0), (10, 5), (0, 5)] ! i3\<rparr> \<and>
      first_min (map coord_sum [(0, 0), (10, 0), (10, 5), (0, 5)]) i0 \<and>
      first_max (map coord_sum [(0, 0), (10, 0), (10, 5), (0, 5)]) i2 \<and>
      first_max (map x_minus_y [(0, 0), (10, 0), (10, 5), (0, 5)]) i1 \<and>
      first_min (map x_minus_y [(0, 0), (10, 0), (10, 5), (0, 5)]) i3)"
proof -
  have len: "length [(0, 0), (10, 0), (10, 5), (0, 5) :: point] = 4" by simp
  have ex: "\<forall>p \<in> set [(0, 0), (10, 0), (10, 5), (0, 5)]. exact_point p"
    by (simp add: exact_point_def)
  then have "list_all exact_point [(0, 0), (10, 0), (10, 5), (0, 5)]"
    by (simp add: list_all_iff)
  with order_points_first_extremes[OF len ex] len show ?thesis by blast
qed

text \<open>
  Claim C1 as the specification words it fails: on the axis-parallel rectangle with
  corners \<open>(0,0), (10,0), (10,5), (0,5)\<close> the point that \<open>order_points\<close> makes top-right,
  \<open>(10,0)\<close>, does not minimise \<open>x - y\<close>, and the point it makes bottom-left, \<open>(0,5)\<close>,
  does not maximise \<open>x - y\<close>.
\<close>

theorem order_points_x_minus_y_counterexample:
  "order_points [(0, 0), (10, 0), (10, 5), (0, 5)] =
     Inr \<lparr>tl_pt = (0, 0), tr_pt = (10, 0), br_pt = (10, 5), bl_pt = (0, 5)\<rparr> \<and>
   \<not> minimizes x_minus_y [(0, 0), (10, 0), (10, 5), (0, 5)] (10, 0) \<and>
   \<not> maximizes x_minus_y [(0, 0), (10, 0), (10, 5), (0, 5)] (0, 5)"
  by (simp add: order_points_eval minimizes_def maximizes_def x_minus_y_def)

text \<open>
  Beyond that range the differences wrap. On the \<^verbatim>\<open>int32\<close> input
  \<open>(-2147483648,1), (0,0), (5,5), (0,10)\<close> the difference \<open>y - x\<close> of the first point
  is \<open>2147483649\<close> and wraps to \<open>-2147483647\<close>, the least of the four, so the first point
  becomes top-right although its \<open>y - x\<close> is the greatest.
\<close>

lemma order_points_wrapped_difference:
  "int32_points [(- 2147483648, 1), (0, 0), (5, 5), (0, 10)] \<and>
   map coord_diff [(- 2147483648, 1), (0, 0), (5, 5), (0, 10)] = [- 2147483647, 0, 0, 10] \<and>
   order_points [(- 2147483648, 1), (0, 0), (5, 5), (0, 10)] =
     Inr \<lparr>tl_pt = (- 2147483648, 1), tr_pt = (- 2147483648, 1), br_pt = (5, 5),
          bl_pt = (0, 10)\<rparr>"
proof -
  have f: "f32_round (- 2147483648) = - 2147483648"
    by (simp add: f32_round_def floorlog2.simps Let_def)
  show ?thesis
    by (simp add: int32_points_def int32_def order_points_def argmin_def argmax_def
        coord_sum_def coord_diff_def wrap32_def f32_point_def f f32_round_exact)
qed

lemma first_min_minimizes:
  assumes "first_min (map f pts) k"
  shows "pts ! k \<in> set (minimizers f pts)"
proof -
  from assms have k: "k < length pts"
    by (simp add: first_min_def)
  from assms have "\<forall>w \<in> set (map f pts). map f pts ! k \<le> w"
    unfolding first_min_def by blast
  with k have "\<forall>q \<in> set pts. f (pts ! k) \<le> f q"
    by simp
  with k have "minimizes f pts (pts ! k)"
    by (simp add: minimizes_def)
  with k show ?thesis by (simp add: minimizers_def)
qed

lemma first_max_maximizes:
  assumes "first_max (map f pts) k"
  shows "pts ! k \<in> set (maximizers f pts)"
proof -
  from assms have k: "k < length pts"
    by (simp add: first_max_def)
  from assms have "\<forall>w \<in> set (map f pts). w \<le> map f pts ! k"
    unfolding first_max_def by blast
  with k have "\<forall>q \<in> set pts. f q \<le> f (pts ! k)"
    by simp
  with k have "maximizes f pts (pts ! k)"
    by (simp add: maximizes_def)
  with k show ?thesis by (simp add: maximizers_def)
qed

lemma order_points_in_extremes:
  assumes "pts \<noteq> []"
  shows "\<exists>r p0 p1 p2 p3. order_points pts = Inr r \<and>
           tl_pt r = f32_point p0 \<and> p0 \<in> set (minimizers coord_sum pts) \<and>
           tr_pt r = f32_point p1 \<and> p1 \<in> set (minimizers coord_diff pts) \<and>
           br_pt r = f32_point p2 \<and> p2 \<in> set (maximizers coord_sum pts) \<and>
           bl_pt r = f32_point p3 \<and> p3 \<in> set (maximizers coord_diff pts)"
proof -
  from order_points_indices[OF assms] obtain i0 i1 i2 i3 where
    r: "order_points pts =
          Inr \<lparr>tl_pt = f32_point (pts ! i0), tr_pt = f32_point (pts ! i1),
               br_pt = f32_point (pts ! i2), bl_pt = f32_point (pts ! i3)\<rparr>"
    and i: "first_min (map coord_sum pts) i0" "first_min (map coord_diff pts) i1"
      "first_max (map coord_sum pts) i2" "first_max (map coord_diff pts) i3"
    by blast
  from i have "pts ! i0 \<in> set (minimizers coord_sum pts)"
    "pts ! i1 \<in> set (minimizers coord_diff pts)"
    "pts ! i2 \<in> set (maximizers coord_sum pts)"
    "pts ! i3 \<in> set (maximizers coord_diff pts)"
    by (simp_all add: first_min_minimizes first_max_maximizes)
  then show ?thesis
    unfolding r by fastforce
qed

lemma order_points_Inr: "pts \<noteq> [] \<Longrightarrow> \<exists>r. order_points pts = Inr r"
  using order_points_in_extremes by blast

lemma set_minimizers: "set (minimizers f pts) = {p \<in> set pts. \<forall>q \<in> set pts. f p \<le> f q}"
  by (auto simp: minimizers_def minimizes_def)

lemma set_maximizers: "set (maximizers f pts) = {p \<in> set pts. \<forall>q \<in> set pts. f q \<le> f p}"
  by (auto simp: maximizers_def maximizes_def)

lemma singleton_list_members:
  assumes "length xs = 1" and "a \<in> set xs" and "b \<in> set xs"
  shows "a = b"
proof -
  from assms(1) obtain x where "xs = [x]"
    by (cases xs) auto
  with assms(2,3) show ?thesis by simp
qed

text \<open>
  When each extremum is attained by one entry of the input, the result of
  \<open>order_points\<close> is the same for every arrangement of the same points.
\<close>

lemma order_points_permutation:
  assumes u: "unique_extremes pts" and m: "mset pts' = mset pts"
  shows "order_points pts' = order_points pts"
proof -
  from u have ne: "pts \<noteq> []"
    by (auto simp: unique_extremes_def minimizers_def)
  with m have ne': "pts' \<noteq> []" by auto
  from m have s: "set pts' = set pts" by (rule mset_eq_setD)
  obtain r p0 p1 p2 p3 where r: "order_points pts = Inr r"
    "tl_pt r = f32_point p0" "p0 \<in> set (minimizers coord_sum pts)"
    "tr_pt r = f32_point p1" "p1 \<in> set (minimizers coord_diff pts)"
    "br_pt r = f32_point p2" "p2 \<in> set (maximizers coord_sum pts)"
    "bl_pt r = f32_point p3" "p3 \<in> set (maximizers coord_diff pts)"
    using order_points_in_extremes[OF ne] by blast
  obtain r' q0 q1 q2 q3 where r': "order_points pts' = Inr r'"
    "tl_pt r' = f32_point q0" "q0 \<in> set (minimizers coord_sum pts')"
    "tr_pt r' = f32_point q1" "q1 \<in> set (minimizers coord_diff pts')"
    "br_pt r' = f32_point q2" "q2 \<in> set (maximizers coord_sum pts')"
    "bl_pt r' = f32_point q3" "q3 \<in> set (maximizers coord_diff pts')"
    using order_points_in_extremes[OF ne'] by blast
  have mins: "set (minimizers f pts') = set (minimizers f pts)" for f
    by (simp add: set_minimizers s)
  have maxs: "set (maximizers f pts') = set (maximizers f pts)" for f
    by (simp add: set_maximizers s)
  from u have len: "length (minimizers coord_sum pts) = 1" "length (maximizers coord_sum pts) = 1"
    "length (minimizers coord_diff pts) = 1" "length (maximizers coord_diff pts) = 1"
    by (simp_all add: unique_extremes_def)
  have "q0 = p0"
    using singleton_list_members[OF len(1)] r'(3) r(3) by (simp add: mins)
  moreover have "q1 = p1"
    using singleton_list_members[OF len(3)] r'(5) r(5) by (simp add: mins)
  moreover have "q2 = p2"
    using singleton_list_members[OF len(2)] r'(7) r(7) by (simp add: maxs)
  moreover have "q3 = p3"
    using singleton_list_members[OF len(4)] r'(9) r(9) by (simp add: maxs)
  ultimately have "r' = r"
    using r(2,4,6,8) r'(2,4,6,8) by simp
  with r(1) r'(1) show ?thesis by simp
qed

text \<open>
  Claim C10, as the code has it. For every input of four \<^verbatim>\<open>int32\<close> points
  \<open>order_points\<close> returns, and each of the four role slots of its result is the
  \<^verbatim>\<open>float32\<close> rounding of one of the input points; when the coordinates are below
  \<open>2 ^ 24\<close> in magnitude each slot is one of the input points. The result need not be a
  rearrangement of the input: there is an input of four different points, with tied
  sums and differences, where one input point fills two roles (top-left and top-right)
  and another input point fills none.
\<close>

theorem order_points_roles_are_inputs:
  "(\<forall>pts. length pts = 4 \<longrightarrow> int32_points pts \<longrightarrow>
      (\<exists>r. order_points pts = Inr r \<and>
           tl_pt r \<in> f32_point ` set pts \<and> tr_pt r \<in> f32_point ` set pts \<and>
           br_pt r \<in> f32_point ` set pts \<and> bl_pt r \<in> f32_point ` set pts \<and>
           ((\<forall>p \<in> set pts. exact_point p) \<longrightarrow>
              tl_pt r \<in> set pts \<and> tr_pt r \<in> set pts \<and>
              br_pt r \<in> set pts \<and> bl_pt r \<in> set pts))) \<and>
   (\<exists>pts r. length pts = 4 \<and> list_all exact_point pts \<and> distinct pts \<and>
      \<not> unique_extremes pts \<and> order_points pts = Inr r \<and> tl_pt r = tr_pt r \<and>
      (\<exists>p \<in> set pts. p \<notin> set (roles r)) \<and> mset (roles r) \<noteq> mset pts)"
proof (intro conjI allI impI)
  fix pts :: "point list"
  assume "length pts = 4"
  then have "pts \<noteq> []" by auto
  from order_points_in_extremes[OF this] obtain r p0 p1 p2 p3 where
    r: "order_points pts = Inr r"
    and p: "tl_pt r = f32_point p0" "tr_pt r = f32_point p1"
      "br_pt r = f32_point p2" "bl_pt r = f32_point p3"
    and m: "p0 \<in> set (minimizers coord_sum pts)" "p1 \<in> set (minimizers coord_diff pts)"
      "p2 \<in> set (maximizers coord_sum pts)" "p3 \<in> set (maximizers coord_diff pts)"
    by blast
  from m have s: "p0 \<in> set pts" "p1 \<in> set pts" "p2 \<in> set pts" "p3 \<in> set pts"
    by (simp_all add: set_minimizers set_maximizers)
  have "(\<forall>p \<in> set pts. exact_point p) \<longrightarrow>
          tl_pt r \<in> set pts \<and> tr_pt r \<in> set pts \<and> br_pt r \<in> set pts \<and> bl_pt r \<in> set pts"
    using s p by (simp add: f32_point_exact)
  with r p s show
    "\<exists>r. order_points pts = Inr r \<and>
       tl_pt r \<in> f32_point ` set pts \<and> tr_pt r \<in> f32_point ` set pts \<and>
       br_pt r \<in> f32_point ` set pts \<and> bl_pt r \<in> f32_point ` set pts \<and>
       ((\<forall>p \<in> set pts. exact_point p) \<longrightarrow>
          tl_pt r \<in> set pts \<and> tr_pt r \<in> set pts \<and>
          br_pt r \<in> set pts \<and> bl_pt r \<in> set pts)"
    by blast
next
  let ?pts = "[(1, 0), (2, 1), (1, 2), (0, 1)] :: point list"
  let ?r = "\<lparr>tl_pt = (1, 0), tr_pt = (1, 0), br_pt = (2, 1), bl_pt = (1, 2)\<rparr>"
  have "order_points ?pts = Inr ?r"
    by (simp add: order_points_eval)
  moreover have "list_all exact_point ?pts"
    by (simp add: exact_point_def)
  moreover have "\<not> unique_extremes ?pts"
    by (simp add: unique_extremes_def minimizers_def minimizes_def coord_sum_def)
  moreover have "\<exists>p \<in> set ?pts. p \<notin> set (roles ?r)"
    by (simp add: roles_def)
  moreover have "mset (roles ?r) \<noteq> mset ?pts"
  proof
    assume "mset (roles ?r) = mset ?pts"
    then have "set (roles ?r) = set ?pts" by (rule mset_eq_setD)
    moreover have "(0, 1) \<in> set ?pts" by simp
    ultimately have "(0, 1) \<in> set (roles ?r)" by blast
    then show False by (simp add: roles_def)
  qed
  ultimately show
    "\<exists>pts r. length pts = 4 \<and> list_all exact_point pts \<and> distinct pts \<and>
       \<not> unique_extremes pts \<and> order_points pts = Inr r \<and> tl_pt r = tr_pt r \<and>
       (\<exists>p \<in> set pts. p \<notin> set (roles r)) \<and> mset (roles r) \<noteq> mset pts"
    by (intro exI[of _ ?pts] exI[of _ ?r]) simp
qed

theorem order_points_roles_are_inputs_witness:
  "length [(3, 1), (7, 2), (6, 9), (1, 8) :: point] = 4 \<and>
   int32_points [(3, 1), (7, 2), (6, 9), (1, 8)] \<and>
   list_all exact_point [(3, 1), (7, 2), (6, 9), (1, 8)] \<and>
   (\<exists>r. order_points [(3, 1), (7, 2), (6, 9), (1, 8)] = Inr r \<and>
        tl_pt r \<in> f32_point ` set [(3, 1), (7, 2), (6, 9), (1, 8)] \<and>
        tr_pt r \<in> f32_point ` set [(3, 1), (7, 2), (6, 9), (1, 8)] \<and>
        br_pt r \<in> f32_point ` set [(3, 1), (7, 2), (6, 9), (1, 8)] \<and>
        bl_pt r \<in> f32_point ` set [(3, 1), (7, 2), (6, 9), (1, 8)] \<and>
        tl_pt r \<in> set [(3, 1), (7, 2), (6, 9), (1, 8)] \<and>
        tr_pt r \<in> set [(3, 1), (7, 2), (6, 9), (1, 8)] \<and>
        br_pt r \<in> set [(3, 1), (7, 2), (6, 9), (1, 8)] \<and>
        bl_pt r \<in> set [(3, 1), (7, 2), (6, 9), (1, 8)])"
proof -
  let ?pts = "[(3, 1), (7, 2), (6, 9), (1, 8)] :: point list"
  have len: "length ?pts = 4" by simp
  have i32: "int32_points ?pts" by (simp add: int32_points_def int32_def)
  have ex: "\<forall>p \<in> set ?pts. exact_point p" by (simp add: exact_point_def)
  then have la: "list_all exact_point ?pts" by (simp add: list_all_iff)
  from order_points_roles_are_inputs have
    "length ?pts = 4 \<longrightarrow> int32_points ?pts \<longrightarrow>
     (\<exists>r. order_points ?pts = Inr r \<and>
        tl_pt r \<in> f32_point ` set ?pts \<and> tr_pt r \<in> f32_point ` set ?pts \<and>
        br_pt r \<in> f32_point ` set ?pts \<and> bl_pt r \<in> f32_point ` set ?pts \<and>
        ((\<forall>p \<in> set ?pts. exact_point p) \<longrightarrow>
           tl_pt r \<in> set ?pts \<and> tr_pt r \<in> set ?pts \<and>
           br_pt r \<in> set ?pts \<and> bl_pt r \<in> set ?pts))"
    by blast
  with len i32 ex la show ?thesis by blast
qed

text \<open>
  Claim C10 as stated fails. The rows of the result are \<^verbatim>\<open>float32\<close>: on the \<^verbatim>\<open>int32\<close>
  input \<open>(16777217,0), (16777219,16777217), (0,16777219), (0,0)\<close> the top-right,
  bottom-right and bottom-left slots hold rounded coordinates, and none of the three is
  a point of the input.
\<close>

theorem order_points_rounded_rows_counterexample:
  "int32_points [(16777217, 0), (16777219, 16777217), (0, 16777219), (0, 0)] \<and>
   order_points [(16777217, 0), (16777219, 16777217), (0, 16777219), (0, 0)] =
     Inr \<lparr>tl_pt = (0, 0), tr_pt = (16777216, 0), br_pt = (16777220, 16777216),
          bl_pt = (0, 16777220)\<rparr> \<and>
   (16777216, 0) \<notin> set [(16777217, 0), (16777219, 16777217), (0, 16777219), (0, 0) :: point] \<and>
   (16777220, 16777216) \<notin>
     set [(16777217, 0), (16777219, 16777217), (0, 16777219), (0, 0) :: point] \<and>
   (0, 16777220) \<notin> set [(16777217, 0), (16777219, 16777217), (0, 16777219), (0, 0) :: point]"
proof -
  have f: "f32_round 16777217 = 16777216" "f32_round 16777219 = 16777220"
    by (simp_all add: f32_round_def floorlog2.simps Let_def)
  show ?thesis
    by (simp add: int32_points_def int32_def order_points_def argmin_def argmax_def
        coord_sum_def coord_diff_def wrap32_def f32_point_def f f32_round_exact)
qed

text \<open>
  Claim C7 on the code. The square with corners \<open>(1,0), (2,1), (1,2), (0,1)\<close>, walked
  from \<open>(1,0)\<close> and walked from \<open>(2,1)\<close>: the two inputs hold the same four points, and
  \<open>order_points\<close> returns two different orderings, neither of which is a rearrangement
  of the corners.
\<close>

theorem order_points_rotated_square:
  "mset [(2, 1), (1, 2), (0, 1), (1, 0)] = mset [(1, 0), (2, 1), (1, 2), (0, 1) :: point] \<and>
   order_points [(1, 0), (2, 1), (1, 2), (0, 1)] =
     Inr \<lparr>tl_pt = (1, 0), tr_pt = (1, 0), br_pt = (2, 1), bl_pt = (1, 2)\<rparr> \<and>
   order_points [(2, 1), (1, 2), (0, 1), (1, 0)] =
     Inr \<lparr>tl_pt = (0, 1), tr_pt = (2, 1), br_pt = (2, 1), bl_pt = (1, 2)\<rparr>"
  by (simp add: order_points_eval)

section \<open>Properties of four_point_transform\<close>

lemma sq_dist_nonneg: "0 \<le> sq_dist p q"
  by (simp add: sq_dist_def)

lemma sq_dist_pos_iff: "1 \<le> sq_dist p q \<longleftrightarrow> p \<noteq> q"
proof -
  have "sq_dist p q = 0 \<longleftrightarrow> p = q"
    by (auto simp: sq_dist_def prod_eq_iff sum_power2_eq_zero_iff)
  with sq_dist_nonneg[of p q] show ?thesis by linarith
qed

lemma abs_le_square: "\<bar>d\<bar> \<le> d * (d :: int)"
proof (cases "d = 0")
  case True
  then show ?thesis by simp
next
  case False
  then have "1 \<le> \<bar>d\<bar>" by simp
  then have "\<bar>d\<bar> * 1 \<le> \<bar>d\<bar> * \<bar>d\<bar>" by (intro mult_left_mono) simp_all
  then show ?thesis by (simp add: abs_mult_self_eq)
qed

text \<open>
  Between two points less than 4096 apart the squared distance is computed without
  rounding.
\<close>

lemma f32_sq_dist_exact:
  assumes "sq_dist p q < 2 ^ 24"
  shows "f32_sq_dist p q = sq_dist p q"
proof -
  define a where "a = fst p - fst q"
  define b where "b = snd p - snd q"
  have s: "sq_dist p q = a * a + b * b"
    by (simp add: sq_dist_def a_def b_def power2_eq_square)
  have nn: "0 \<le> a * a" "0 \<le> b * b" by simp_all
  with assms s have sq: "a * a < 2 ^ 24" "b * b < 2 ^ 24" by linarith+
  with abs_le_square[of a] abs_le_square[of b] have ab: "\<bar>a\<bar> < 2 ^ 24" "\<bar>b\<bar> < 2 ^ 24"
    by linarith+
  from nn sq have "\<bar>a * a\<bar> < 2 ^ 24" "\<bar>b * b\<bar> < 2 ^ 24" by simp_all
  moreover from nn assms s have "\<bar>a * a + b * b\<bar> < 2 ^ 24" by simp
  ultimately have "f32_add (f32_square (f32_sub (fst p) (fst q)))
      (f32_square (f32_sub (snd p) (snd q))) = a * a + b * b"
    using ab by (simp add: f32_add_def f32_square_def f32_sub_def f32_round_exact
        a_def[symmetric] b_def[symmetric])
  with s show ?thesis by (simp add: f32_sq_dist_def)
qed

lemma floor_distance: "\<lfloor>distance p q\<rfloor> = int (isqrt (nat (sq_dist p q)))"
  using isqrt_floor[of "nat (sq_dist p q)"] sq_dist_nonneg[of p q]
  by (simp add: distance_def)

lemma side_exact:
  assumes "sq_dist p q < 2 ^ 24"
  shows "int_f32_sqrt (f32_sq_dist p q) = int (isqrt (nat (sq_dist p q)))"
  using assms sq_dist_nonneg[of p q]
  by (simp add: f32_sq_dist_exact int_f32_sqrt_exact)

lemma side_pos_iff:
  assumes "sq_dist p q < 2 ^ 24"
  shows "1 \<le> int_f32_sqrt (f32_sq_dist p q) \<longleftrightarrow> p \<noteq> q"
proof -
  have "1 \<le> int (isqrt (nat (sq_dist p q))) \<longleftrightarrow> 1 \<le> isqrt (nat (sq_dist p q))"
    by simp
  also have "\<dots> \<longleftrightarrow> 1 \<le> nat (sq_dist p q)"
    by (rule isqrt_pos_iff)
  also have "\<dots> \<longleftrightarrow> 1 \<le> sq_dist p q"
    by linarith
  finally show ?thesis
    by (simp add: side_exact[OF assms] sq_dist_pos_iff)
qed

lemma floor_max: "\<lfloor>max a b\<rfloor> = max \<lfloor>a\<rfloor> \<lfloor>b :: real\<rfloor>"
proof (cases "a \<le> b")
  case True
  then have "\<lfloor>a\<rfloor> \<le> \<lfloor>b\<rfloor>" by (rule floor_mono)
  with True show ?thesis by (simp add: max_def)
next
  case False
  then have "\<lfloor>b\<rfloor> \<le> \<lfloor>a\<rfloor>" by (intro floor_mono) simp
  with False show ?thesis by (simp add: max_def)
qed

lemma maxWidth_floor:
  assumes "sq_dist (br_pt r) (bl_pt r) < 2 ^ 24" and "sq_dist (tr_pt r) (tl_pt r) < 2 ^ 24"
  shows "maxWidth r = \<lfloor>max (distance (br_pt r) (bl_pt r)) (distance (tr_pt r) (tl_pt r))\<rfloor>"
  using assms by (simp add: maxWidth_def floor_max floor_distance side_exact)

lemma maxHeight_floor:
  assumes "sq_dist (tr_pt r) (br_pt r) < 2 ^ 24" and "sq_dist (tl_pt r) (bl_pt r) < 2 ^ 24"
  shows "maxHeight r = \<lfloor>max (distance (tr_pt r) (br_pt r)) (distance (tl_pt r) (bl_pt r))\<rfloor>"
  using assms by (simp add: maxHeight_def floor_max floor_distance side_exact)

lemma maxWidth_pos_iff:
  assumes "sq_dist (br_pt r) (bl_pt r) < 2 ^ 24" and "sq_dist (tr_pt r) (tl_pt r) < 2 ^ 24"
  shows "1 \<le> maxWidth r \<longleftrightarrow> br_pt r \<noteq> bl_pt r \<or> tr_pt r \<noteq> tl_pt r"
  using side_pos_iff[OF assms(1)] side_pos_iff[OF assms(2)]
  by (simp add: maxWidth_def le_max_iff_disj)

lemma maxHeight_pos_iff:
  assumes "sq_dist (tr_pt r) (br_pt r) < 2 ^ 24" and "sq_dist (tl_pt r) (bl_pt r) < 2 ^ 24"
  shows "1 \<le> maxHeight r \<longleftrightarrow> tr_pt r \<noteq> br_pt r \<or> tl_pt r \<noteq> bl_pt r"
  using side_pos_iff[OF assms(1)] side_pos_iff[OF assms(2)]
  by (simp add: maxHeight_def le_max_iff_disj)

lemma maxWidth_nonneg: "0 \<le> maxWidth r"
  by (simp add: maxWidth_def le_max_iff_disj int_f32_sqrt_nonneg)

lemma maxHeight_nonneg: "0 \<le> maxHeight r"
  by (simp add: maxHeight_def le_max_iff_disj int_f32_sqrt_nonneg)

lemma four_point_transform_Inr:
  assumes "order_points pts = Inr rect"
  shows "four_point_transform cv img pts =
           Inr (warpPerspective cv img
                  (getPerspectiveTransform cv rect (dst_points (maxWidth rect) (maxHeight rect)))
                  (maxWidth rect, maxHeight rect))"
  using assms by (simp add: four_point_transform_def Let_def)

text \<open>
  Evaluation on numerals goes in two steps: the squared distances first, the integer
  square roots after.
\<close>

lemmas dims_unfold = maxWidth_def maxHeight_def Let_def side_exact sq_dist_def

lemmas sqrt_eval = isqrt.simps dst_points_def f32_round_exact

lemmas extremes_eval =
  unique_extremes_def minimizers_def maximizers_def minimizes_def maximizes_def
  coord_sum_def coord_diff_def wrap32_def

text \<open>
  Claim C5, as the code has it. For every input of four points with coordinates below
  \<open>2 ^ 24\<close> in magnitude, no two of them 4096 or more apart, and with \<open>rect\<close> the corners
  that \<open>order_points\<close> returns, \<open>four_point_transform\<close> asks the warp for an image of
  width \<open>floor (max (distance br bl) (distance tr tl))\<close> and height
  \<open>floor (max (distance tr br) (distance tl bl))\<close>. The width is at least 1 exactly when
  \<open>br\<close> differs from \<open>bl\<close> or \<open>tr\<close> from \<open>tl\<close>, and the height is at least 1 exactly when
  \<open>tr\<close> differs from \<open>br\<close> or \<open>tl\<close> from \<open>bl\<close>. When both are at least 1, and the warp of the
  library returns an image of the size it is asked for, the output has that size.
\<close>

theorem four_point_transform_dimensions:
  assumes "length pts = 4"
    and "\<forall>p \<in> set pts. exact_point p"
    and "\<forall>p \<in> set pts. \<forall>q \<in> set pts. sq_dist p q < 2 ^ 24"
    and "\<forall>src M w h. 1 \<le> w \<longrightarrow> 1 \<le> h \<longrightarrow> size_of (warpPerspective cv src M (w, h)) = (w, h)"
  shows "\<exists>rect out. order_points pts = Inr rect \<and>
           four_point_transform cv img pts = Inr out \<and>
           out = warpPerspective cv img
                   (getPerspectiveTransform cv rect
                      (dst_points (maxWidth rect) (maxHeight rect)))
                   (maxWidth rect, maxHeight rect) \<and>
           maxWidth rect =
             \<lfloor>max (distance (br_pt rect) (bl_pt rect)) (distance (tr_pt rect) (tl_pt rect))\<rfloor> \<and>
           maxHeight rect =
             \<lfloor>max (distance (tr_pt rect) (br_pt rect)) (distance (tl_pt rect) (bl_pt rect))\<rfloor> \<and>
           (1 \<le> maxWidth rect \<longleftrightarrow> br_pt rect \<noteq> bl_pt rect \<or> tr_pt rect \<noteq> tl_pt rect) \<and>
           (1 \<le> maxHeight rect \<longleftrightarrow> tr_pt rect \<noteq> br_pt rect \<or> tl_pt rect \<noteq> bl_pt rect) \<and>
           (1 \<le> maxWidth rect \<and> 1 \<le> maxHeight rect \<longrightarrow>
              size_of out = (maxWidth rect, maxHeight rect))"
proof -
  from assms(1) have "pts \<noteq> []" by auto
  from order_points_in_extremes[OF this] obtain rect p0 p1 p2 p3 where
    r: "order_points pts = Inr rect"
    and p: "tl_pt rect = f32_point p0" "tr_pt rect = f32_point p1"
      "br_pt rect = f32_point p2" "bl_pt rect = f32_point p3"
    and m: "p0 \<in> set (minimizers coord_sum pts)" "p1 \<in> set (minimizers coord_diff pts)"
      "p2 \<in> set (maximizers coord_sum pts)" "p3 \<in> set (maximizers coord_diff pts)"
    by blast
  from m have s: "p0 \<in> set pts" "p1 \<in> set pts" "p2 \<in> set pts" "p3 \<in> set pts"
    by (simp_all add: set_minimizers set_maximizers)
  with p assms(2) have c: "tl_pt rect \<in> set pts" "tr_pt rect \<in> set pts"
    "br_pt rect \<in> set pts" "bl_pt rect \<in> set pts"
    by (simp_all add: f32_point_exact)
  with assms(3) have d: "sq_dist (br_pt rect) (bl_pt rect) < 2 ^ 24"
    "sq_dist (tr_pt rect) (tl_pt rect) < 2 ^ 24"
    "sq_dist (tr_pt rect) (br_pt rect) < 2 ^ 24"
    "sq_dist (tl_pt rect) (bl_pt rect) < 2 ^ 24"
    by blast+
  define out where "out = warpPerspective cv img
      (getPerspectiveTransform cv rect (dst_points (maxWidth rect) (maxHeight rect)))
      (maxWidth rect, maxHeight rect)"
  have f: "four_point_transform cv img pts = Inr out"
    unfolding out_def by (rule four_point_transform_Inr[OF r])
  have sz: "1 \<le> maxWidth rect \<and> 1 \<le> maxHeight rect \<longrightarrow>
      size_of out = (maxWidth rect, maxHeight rect)"
    unfolding out_def using assms(4) by blast
  show ?thesis
  proof (intro exI[of _ rect] exI[of _ out] conjI)
    show "order_points pts = Inr rect" by (rule r)
    show "four_point_transform cv img pts = Inr out" by (rule f)
    show "out = warpPerspective cv img
            (getPerspectiveTransform cv rect (dst_points (maxWidth rect) (maxHeight rect)))
            (maxWidth rect, maxHeight rect)"
      by (rule out_def)
    show "maxWidth rect =
            \<lfloor>max (distance (br_pt rect) (bl_pt rect)) (distance (tr_pt rect) (tl_pt rect))\<rfloor>"
      by (rule maxWidth_floor[OF d(1,2)])
    show "maxHeight rect =
            \<lfloor>max (distance (tr_pt rect) (br_pt rect)) (distance (tl_pt rect) (bl_pt rect))\<rfloor>"
      by (rule maxHeight_floor[OF d(3,4)])
    show "1 \<le> maxWidth rect \<longleftrightarrow> br_pt rect \<noteq> bl_pt rect \<or> tr_pt rect \<noteq> tl_pt rect"
      by (rule maxWidth_pos_iff[OF d(1,2)])
    show "1 \<le> maxHeight rect \<longleftrightarrow> tr_pt rect \<noteq> br_pt rect \<or> tl_pt rect \<noteq> bl_pt rect"
      by (rule maxHeight_pos_iff[OF d(3,4)])
    show "1 \<le> maxWidth rect \<and> 1 \<le> maxHeight rect \<longrightarrow>
            size_of out = (maxWidth rect, maxHeight rect)"
      by (rule sz)
  qed
qed

lemma picture_size_warp:
  "\<forall>src M w h. 1 \<le> w \<longrightarrow> 1 \<le> h \<longrightarrow> picture_size (warpPerspective sym_cv src M (w, h)) = (w, h)"
  by (simp add: sym_cv_def)

theorem four_point_transform_dimensions_witness:
  "length [(0, 0), (10, 0), (10, 5), (0, 5) :: point] = 4 \<and>
   list_all exact_point [(0, 0), (10, 0), (10, 5), (0, 5)] \<and>
   list_all (\<lambda>p. list_all (\<lambda>q. sq_dist p q < 2 ^ 24) [(0, 0), (10, 0), (10, 5), (0, 5)])
     [(0, 0), (10, 0), (10, 5), (0, 5)] \<and>
   (\<exists>rect out. order_points [(0, 0), (10, 0), (10, 5), (0, 5)] = Inr rect \<and>
      four_point_transform sym_cv (Scene []) [(0, 0), (10, 0), (10, 5), (0, 5)] = Inr out \<and>
      out = warpPerspective sym_cv (Scene [])
              (getPerspectiveTransform sym_cv rect
                 (dst_points (maxWidth rect) (maxHeight rect)))
              (maxWidth rect, maxHeight rect) \<and>
      maxWidth rect =
        \<lfloor>max (distance (br_pt rect) (bl_pt rect)) (distance (tr_pt rect) (tl_pt rect))\<rfloor> \<and>
      maxHeight rect =
        \<lfloor>max (distance (tr_pt rect) (br_pt rect)) (distance (tl_pt rect) (bl_pt rect))\<rfloor> \<and>
      (1 \<le> maxWidth rect) = (br_pt rect \<noteq> bl_pt rect \<or> tr_pt rect \<noteq> tl_pt rect) \<and>
      (1 \<le> maxHeight rect) = (tr_pt rect \<noteq> br_pt rect \<or> tl_pt rect \<noteq> bl_pt rect) \<and>
      (1 \<le> maxWidth rect \<and> 1 \<le> maxHeight rect \<longrightarrow>
         picture_size out = (maxWidth rect, maxHeight rect)))"
proof -
  let ?pts = "[(0, 0), (10, 0), (10, 5), (0, 5)] :: point list"
  have len: "length ?pts = 4" by simp
  have ex: "\<forall>p \<in> set ?pts. exact_point p"
    by (simp add: exact_point_def)
  have near: "\<forall>p \<in> set ?pts. \<forall>q \<in> set ?pts. sq_dist p q < 2 ^ 24"
    by (simp add: sq_dist_def)
  from ex have la: "list_all exact_point ?pts"
    by (simp add: list_all_iff)
  from near have ln: "list_all (\<lambda>p. list_all (\<lambda>q. sq_dist p q < 2 ^ 24) ?pts) ?pts"
    unfolding list_all_iff .
  from four_point_transform_dimensions[OF len ex near picture_size_warp, of "Scene []"]
    len la ln
  show ?thesis by blast
qed

text \<open>
  The quadrilateral \<open>(0,0), (4019,821), (4019,1821), (0,1000)\<close> and the kite
  \<open>(1,0), (2,2), (1,5), (0,2)\<close>, evaluated.
\<close>

lemma int_f32_sqrt_16826402: "int_f32_sqrt 16826402 = 4102"
proof -
  have k: "isqrt 16826402 = 4101" by (simp add: isqrt.simps)
  have e: "floorlog2 4101 = 12" by (simp add: floorlog2.simps)
  have N: "isqrt 70575045214208 = 8400895" by (simp add: isqrt.simps)
  show ?thesis by (simp add: int_f32_sqrt_def Let_def k e N)
qed

lemma f32_sq_dist_16826402:
  "f32_sq_dist (4019, 1821) (0, 1000) = 16826402"
  "f32_sq_dist (4019, 821) (0, 0) = 16826402"
proof -
  have "f32_round 16826402 = 16826402"
    by (simp add: f32_round_def floorlog2.simps Let_def)
  then show "f32_sq_dist (4019, 1821) (0, 1000) = 16826402"
    "f32_sq_dist (4019, 821) (0, 0) = 16826402"
    by (simp_all add: f32_sq_dist_def f32_add_def f32_square_def f32_sub_def f32_round_exact)
qed

lemma floor_distance_16826402:
  "\<lfloor>max (distance (4019, 1821) (0, 1000)) (distance (4019, 821) (0, 0))\<rfloor> = 4101"
proof -
  have "isqrt 16826402 = 4101" by (simp add: isqrt.simps)
  then show ?thesis
    by (simp add: floor_max floor_distance sq_dist_def)
qed

text \<open>
  Claim C5 as stated fails, for the formula and for the lower bound. On the quadrilateral
  \<open>(0,0), (4019,821), (4019,1821), (0,1000)\<close> both horizontal sides have the squared
  length \<open>16826402\<close>, whose root \<open>4101.9997\<close> is rounded to the \<^verbatim>\<open>float32\<close> \<open>4102\<close>: the
  width asked for is 4102, and the floor of the distance is 4101. The kite with corners
  \<open>(1,0), (2,2), (1,5), (0,2)\<close> is a convex quadrilateral with four different corners,
  no three of them on a line, and no ties among its sums or differences;
  \<open>order_points\<close> makes \<open>(1,0)\<close> both top-left and top-right and \<open>(1,5)\<close> both
  bottom-right and bottom-left, and the width computed, which is also the floor of the
  greater distance, is 0.
\<close>

theorem four_point_transform_dimensions_counterexample:
  "order_points [(0, 0), (4019, 821), (4019, 1821), (0, 1000)] =
     Inr \<lparr>tl_pt = (0, 0), tr_pt = (4019, 821), br_pt = (4019, 1821), bl_pt = (0, 1000)\<rparr> \<and>
   maxWidth \<lparr>tl_pt = (0, 0), tr_pt = (4019, 821), br_pt = (4019, 1821), bl_pt = (0, 1000)\<rparr> =
     4102 \<and>
   \<lfloor>max (distance (4019, 1821) (0, 1000)) (distance (4019, 821) (0, 0))\<rfloor> = 4101 \<and>
   \<not> degenerate [(1, 0), (2, 2), (1, 5), (0, 2)] \<and>
   polygon_convex [(1, 0), (2, 2), (1, 5), (0, 2)] \<and>
   unique_extremes [(1, 0), (2, 2), (1, 5), (0, 2)] \<and>
   order_points [(1, 0), (2, 2), (1, 5), (0, 2)] =
     Inr \<lparr>tl_pt = (1, 0), tr_pt = (1, 0), br_pt = (1, 5), bl_pt = (1, 5)\<rparr> \<and>
   maxWidth \<lparr>tl_pt = (1, 0), tr_pt = (1, 0), br_pt = (1, 5), bl_pt = (1, 5)\<rparr> = 0 \<and>
   maxHeight \<lparr>tl_pt = (1, 0), tr_pt = (1, 0), br_pt = (1, 5), bl_pt = (1, 5)\<rparr> = 5"
proof (intro conjI)
  show "order_points [(0, 0), (4019, 821), (4019, 1821), (0, 1000)] =
     Inr \<lparr>tl_pt = (0, 0), tr_pt = (4019, 821), br_pt = (4019, 1821), bl_pt = (0, 1000)\<rparr>"
    by (simp add: order_points_eval)
  show "maxWidth \<lparr>tl_pt = (0, 0), tr_pt = (4019, 821), br_pt = (4019, 1821),
       bl_pt = (0, 1000)\<rparr> = 4102"
    by (simp add: maxWidth_def f32_sq_dist_16826402 int_f32_sqrt_16826402)
  show "\<lfloor>max (distance (4019, 1821) (0, 1000)) (distance (4019, 821) (0, 0))\<rfloor> = 4101"
    by (rule floor_distance_16826402)
  show "\<not> degenerate [(1, 0), (2, 2), (1, 5), (0, 2)]"
    by (simp add: degenerate_def turn_def)
  show "polygon_convex [(1, 0), (2, 2), (1, 5), (0, 2)]"
    by (simp add: polygon_convex_def turn_def)
  show "unique_extremes [(1, 0), (2, 2), (1, 5), (0, 2)]"
    by (simp add: extremes_eval)
  show "order_points [(1, 0), (2, 2), (1, 5), (0, 2)] =
          Inr \<lparr>tl_pt = (1, 0), tr_pt = (1, 0), br_pt = (1, 5), bl_pt = (1, 5)\<rparr>"
    by (simp add: order_points_eval)
  show "maxWidth \<lparr>tl_pt = (1, 0), tr_pt = (1, 0), br_pt = (1, 5), bl_pt = (1, 5)\<rparr> = 0"
    by (simp add: dims_unfold) (simp add: sqrt_eval)
  show "maxHeight \<lparr>tl_pt = (1, 0), tr_pt = (1, 0), br_pt = (1, 5), bl_pt = (1, 5)\<rparr> = 5"
    by (simp add: dims_unfold) (simp add: sqrt_eval)
qed

text \<open>
  Claim C4, as the code has it. \<open>four_point_transform\<close> makes no test on its corners and
  has no error of its own for a collapsed quadrilateral: for every input of four points,
  degenerate or not, it returns what the library warp returns for the computed size.
  The computed width and height are never negative; they can be 0.
\<close>

theorem four_point_transform_no_degeneracy_check:
  assumes "length pts = 4"
  shows "\<exists>rect. order_points pts = Inr rect \<and>
           four_point_transform cv img pts =
             Inr (warpPerspective cv img
                    (getPerspectiveTransform cv rect
                       (dst_points (maxWidth rect) (maxHeight rect)))
                    (maxWidth rect, maxHeight rect)) \<and>
           0 \<le> maxWidth rect \<and> 0 \<le> maxHeight rect"
proof -
  from assms have "pts \<noteq> []" by auto
  from order_points_Inr[OF this] obtain rect where r: "order_points pts = Inr rect"
    by blast
  from four_point_transform_Inr[OF r, of cv img] r maxWidth_nonneg[of rect]
    maxHeight_nonneg[of rect]
  show ?thesis by blast
qed

theorem four_point_transform_no_degeneracy_check_witness:
  "length [(2, 3), (2, 3), (2, 3), (2, 3) :: point] = 4 \<and>
   degenerate [(2, 3), (2, 3), (2, 3), (2, 3)] \<and>
   (\<exists>rect. order_points [(2, 3), (2, 3), (2, 3), (2, 3)] = Inr rect \<and>
      four_point_transform sym_cv (Scene []) [(2, 3), (2, 3), (2, 3), (2, 3)] =
        Inr (warpPerspective sym_cv (Scene [])
               (getPerspectiveTransform sym_cv rect
                  (dst_points (maxWidth rect) (maxHeight rect)))
               (maxWidth rect, maxHeight rect)) \<and>
      0 \<le> maxWidth rect \<and> 0 \<le> maxHeight rect)"
proof -
  have len: "length [(2, 3), (2, 3), (2, 3), (2, 3) :: point] = 4" by simp
  have deg: "degenerate [(2, 3), (2, 3), (2, 3), (2, 3)]" by (simp add: degenerate_def)
  from four_point_transform_no_degeneracy_check[OF len, of sym_cv "Scene []"] len deg
  show ?thesis by blast
qed

text \<open>
  Claim C4 as stated fails. On the degenerate input that repeats the point \<open>(2,3)\<close> four
  times, \<open>four_point_transform\<close> does not fail: it returns the result of the warp, asked
  for an image of size \<open>0 \<times> 0\<close>.
\<close>

theorem four_point_transform_degenerate_counterexample:
  "degenerate [(2, 3), (2, 3), (2, 3), (2, 3)] \<and>
   four_point_transform sym_cv (Scene []) [(2, 3), (2, 3), (2, 3), (2, 3)] =
     Inr (Warped (Scene [])
            (\<lparr>tl_pt = (2, 3), tr_pt = (2, 3), br_pt = (2, 3), bl_pt = (2, 3)\<rparr>,
             \<lparr>tl_pt = (0, 0), tr_pt = (- 1, 0), br_pt = (- 1, - 1), bl_pt = (0, - 1)\<rparr>)
            (0, 0))"
proof (intro conjI)
  show "degenerate [(2, 3), (2, 3), (2, 3), (2, 3)]"
    by (simp add: degenerate_def)
  have r: "order_points [(2, 3), (2, 3), (2, 3), (2, 3)] =
             Inr \<lparr>tl_pt = (2, 3), tr_pt = (2, 3), br_pt = (2, 3), bl_pt = (2, 3)\<rparr>"
    by (simp add: order_points_eval)
  show "four_point_transform sym_cv (Scene []) [(2, 3), (2, 3), (2, 3), (2, 3)] =
     Inr (Warped (Scene [])
            (\<lparr>tl_pt = (2, 3), tr_pt = (2, 3), br_pt = (2, 3), bl_pt = (2, 3)\<rparr>,
             \<lparr>tl_pt = (0, 0), tr_pt = (- 1, 0), br_pt = (- 1, - 1), bl_pt = (0, - 1)\<rparr>)
            (0, 0))"
    unfolding four_point_transform_Inr[OF r]
    by (simp add: sym_cv_def dims_unfold) (simp add: sqrt_eval)
qed

text \<open>
  Claim C9. \<open>four_point_transform\<close> orders its input itself: the corners it passes to
  the library are those that \<open>order_points\<close> returns. For every input of four \<^verbatim>\<open>int32\<close>
  points whose four extremal choices are unique, \<open>order_points\<close> returns the same
  corners for every arrangement of the same four points, and \<open>four_point_transform\<close>
  returns the same image, the warp for those corners.
\<close>

theorem four_point_transform_permutation:
  assumes "length pts = 4" and "int32_points pts" and "unique_extremes pts"
    and "mset pts' = mset pts"
  shows "\<exists>rect. order_points pts = Inr rect \<and> order_points pts' = Inr rect \<and>
           four_point_transform cv img pts =
             Inr (warpPerspective cv img
                    (getPerspectiveTransform cv rect
                       (dst_points (maxWidth rect) (maxHeight rect)))
                    (maxWidth rect, maxHeight rect)) \<and>
           four_point_transform cv img pts' = four_point_transform cv img pts"
proof -
  from assms(1) have "pts \<noteq> []" by auto
  from order_points_Inr[OF this] obtain rect where r: "order_points pts = Inr rect"
    by blast
  from order_points_permutation[OF assms(3,4)] r have r': "order_points pts' = Inr rect"
    by simp
  from four_point_transform_Inr[OF r, of cv img] four_point_transform_Inr[OF r', of cv img]
    r r'
  show ?thesis by simp
qed

theorem four_point_transform_permutation_witness:
  "length [(0, 0), (10, 0), (10, 5), (0, 5) :: point] = 4 \<and>
   int32_points [(0, 0), (10, 0), (10, 5), (0, 5)] \<and>
   unique_extremes [(0, 0), (10, 0), (10, 5), (0, 5)] \<and>
   mset [(10, 5), (0, 0), (0, 5), (10, 0)] = mset [(0, 0), (10, 0), (10, 5), (0, 5) :: point] \<and>
   (\<exists>rect. order_points [(0, 0), (10, 0), (10, 5), (0, 5)] = Inr rect \<and>
      order_points [(10, 5), (0, 0), (0, 5), (10, 0)] = Inr rect \<and>
      four_point_transform sym_cv (Scene []) [(0, 0), (10, 0), (10, 5), (0, 5)] =
        Inr (warpPerspective sym_cv (Scene [])
               (getPerspectiveTransform sym_cv rect
                  (dst_points (maxWidth rect) (maxHeight rect)))
               (maxWidth rect, maxHeight rect)) \<and>
      four_point_transform sym_cv (Scene []) [(10, 5), (0, 0), (0, 5), (10, 0)] =
        four_point_transform sym_cv (Scene []) [(0, 0), (10, 0), (10, 5), (0, 5)])"
proof -
  have len: "length [(0, 0), (10, 0), (10, 5), (0, 5) :: point] = 4" by simp
  have i32: "int32_points [(0, 0), (10, 0), (10, 5), (0, 5)]"
    by (simp add: int32_points_def int32_def)
  have u: "unique_extremes [(0, 0), (10, 0), (10, 5), (0, 5)]"
    by (simp add: extremes_eval)
  have m: "mset [(10, 5), (0, 0), (0, 5), (10, 0)] = mset [(0, 0), (10, 0), (10, 5), (0, 5) :: point]"
    by simp
  from four_point_transform_permutation[OF len i32 u m, of sym_cv "Scene []"] len i32 u m
  show ?thesis by blast
qed

text \<open>
  The uniqueness is that of the differences the code computes. On the \<^verbatim>\<open>int32\<close> input
  \<open>(-2147483648,2147483647), (1,0), (0,5), (3,3)\<close> the exact differences are all
  different, the first one wraps to \<open>-1\<close> and ties with the second, and the extremal
  choices are not unique.
\<close>

lemma unique_extremes_wrapped:
  "int32_points [(- 2147483648, 2147483647), (1, 0), (0, 5), (3, 3)] \<and>
   map coord_diff [(- 2147483648, 2147483647), (1, 0), (0, 5), (3, 3)] = [- 1, - 1, 5, 0] \<and>
   \<not> unique_extremes [(- 2147483648, 2147483647), (1, 0), (0, 5), (3, 3)]"
  by (simp add: int32_points_def int32_def extremes_eval)

section \<open>Properties of the selection in rectangle\<close>

lemma mset_sorted_reverse: "mset (sorted_reverse key xs) = mset xs"
  by (simp add: sorted_reverse_def)

lemma sorted_reverse_descending:
  "sorted_wrt (\<lambda>a b. key b \<le> key a) (sorted_reverse key xs)"
proof -
  have "sorted (map key (sort_key key (rev xs)))"
    by (rule sorted_sort_key)
  then have "sorted_wrt (\<lambda>a b. key a \<le> key b) (sort_key key (rev xs))"
    by (simp add: sorted_map)
  then show ?thesis
    by (simp add: sorted_reverse_def sorted_wrt_rev)
qed

text \<open>Contours of equal area keep the order they were extracted in.\<close>

lemma sorted_reverse_stable:
  "filter (\<lambda>c. key c = a) (sorted_reverse key xs) = filter (\<lambda>c. key c = a) xs"
proof -
  have "filter (\<lambda>c. key c = a) (sorted_reverse key xs) =
          rev (filter (\<lambda>c. key c = a) (sort_key key (rev xs)))"
    by (simp add: sorted_reverse_def rev_filter)
  also have "\<dots> = rev (filter (\<lambda>c. key c = a) (rev xs))"
    by (simp only: sort_key_stable)
  also have "\<dots> = filter (\<lambda>c. key c = a) xs"
    by (simp add: rev_filter)
  finally show ?thesis .
qed

lemma dropped_below_kept:
  assumes "sorted_wrt (\<lambda>a b. key b \<le> key a) xs"
    and "c \<in> set (drop n xs)" and "d \<in> set (take n xs)"
  shows "key c \<le> key d"
proof -
  from assms(1) have "sorted_wrt (\<lambda>a b. key b \<le> key a) (take n xs @ drop n xs)"
    by simp
  then have "\<forall>x \<in> set (take n xs). \<forall>y \<in> set (drop n xs). key y \<le> key x"
    unfolding sorted_wrt_append by blast
  with assms(2,3) show ?thesis by blast
qed

text \<open>The loop is a search for the first accepted contour.\<close>

lemma scan_contours_find:
  "scan_contours cv cs = map_option (approx_of cv) (find (accepted cv) cs)"
  by (induction cs) (simp_all add: Let_def accepted_def approx_of_def)

lemma scan_contours_None_iff:
  "scan_contours cv cs = None \<longleftrightarrow> (\<forall>c \<in> set cs. \<not> accepted cv c)"
  by (auto simp: scan_contours_find find_None_iff)

lemma scan_contours_Some_iff:
  "scan_contours cv cs = Some q \<longleftrightarrow>
     (\<exists>i < length cs. accepted cv (cs ! i) \<and> q = approx_of cv (cs ! i) \<and>
        (\<forall>j < i. \<not> accepted cv (cs ! j)))"
proof
  assume "scan_contours cv cs = Some q"
  then obtain c where c: "find (accepted cv) cs = Some c" and q: "q = approx_of cv c"
    by (auto simp: scan_contours_find)
  from c obtain i where "i < length cs" "accepted cv (cs ! i)" "c = cs ! i"
    "\<forall>j < i. \<not> accepted cv (cs ! j)"
    unfolding find_Some_iff by blast
  with q show "\<exists>i < length cs. accepted cv (cs ! i) \<and> q = approx_of cv (cs ! i) \<and>
        (\<forall>j < i. \<not> accepted cv (cs ! j))"
    by blast
next
  assume "\<exists>i < length cs. accepted cv (cs ! i) \<and> q = approx_of cv (cs ! i) \<and>
        (\<forall>j < i. \<not> accepted cv (cs ! j))"
  then obtain i where i: "i < length cs" "accepted cv (cs ! i)" "q = approx_of cv (cs ! i)"
    "\<forall>j < i. \<not> accepted cv (cs ! j)"
    by blast
  then have "find (accepted cv) cs = Some (cs ! i)"
    unfolding find_Some_iff by blast
  with i(3) show "scan_contours cv cs = Some q"
    by (simp add: scan_contours_find)
qed

lemma scan_contours_four_points:
  assumes "scan_contours cv cs = Some q"
  shows "length q = 4 \<and> isContourConvex cv q"
proof -
  from assms obtain i where "accepted cv (cs ! i)" "q = approx_of cv (cs ! i)"
    unfolding scan_contours_Some_iff by blast
  then show ?thesis by (simp add: accepted_def)
qed

text \<open>
  Claim C6. The contours are ranked by area, largest first, contours of equal area in
  the order of extraction; the candidates are the first five of the ranking, so no
  contour left out has a larger area than a candidate; and the loop returns the
  approximation of the first candidate, in that order, whose approximation has four
  points and is convex, or nothing when no candidate is accepted. A later candidate, or
  a contour outside the first five, is never the one selected.
\<close>

theorem quadrilateral_selection:
  "mset (ranked cv cnts) = mset cnts \<and>
   sorted_wrt (\<lambda>a b. contourArea cv b \<le> contourArea cv a) (ranked cv cnts) \<and>
   (\<forall>a. filter (\<lambda>c. contourArea cv c = a) (ranked cv cnts) =
        filter (\<lambda>c. contourArea cv c = a) cnts) \<and>
   candidates cv cnts = take 5 (ranked cv cnts) \<and>
   length (candidates cv cnts) = min 5 (length cnts) \<and>
   (\<forall>c \<in> set (drop 5 (ranked cv cnts)). \<forall>d \<in> set (candidates cv cnts).
      contourArea cv c \<le> contourArea cv d) \<and>
   (scan_contours cv (candidates cv cnts) = None \<longleftrightarrow>
      (\<forall>c \<in> set (candidates cv cnts). \<not> accepted cv c)) \<and>
   (\<forall>q. scan_contours cv (candidates cv cnts) = Some q \<longleftrightarrow>
      (\<exists>i < length (candidates cv cnts).
         accepted cv (candidates cv cnts ! i) \<and> q = approx_of cv (candidates cv cnts ! i) \<and>
         (\<forall>j < i. \<not> accepted cv (candidates cv cnts ! j))))"
proof (intro conjI allI ballI)
  show "mset (ranked cv cnts) = mset cnts"
    by (simp add: ranked_def mset_sorted_reverse)
  show d: "sorted_wrt (\<lambda>a b. contourArea cv b \<le> contourArea cv a) (ranked cv cnts)"
    unfolding ranked_def by (rule sorted_reverse_descending)
  show "filter (\<lambda>c. contourArea cv c = a) (ranked cv cnts) =
          filter (\<lambda>c. contourArea cv c = a) cnts" for a
    unfolding ranked_def by (rule sorted_reverse_stable)
  show "candidates cv cnts = take 5 (ranked cv cnts)"
    by (simp add: candidates_def)
  have "length (ranked cv cnts) = length cnts"
    by (simp add: ranked_def sorted_reverse_def)
  then show "length (candidates cv cnts) = min 5 (length cnts)"
    by (simp add: candidates_def min.commute)
  show "contourArea cv c \<le> contourArea cv d'"
    if "c \<in> set (drop 5 (ranked cv cnts))" and "d' \<in> set (candidates cv cnts)" for c d'
    using dropped_below_kept[OF d, of c 5 d'] that by (simp add: candidates_def)
  show "scan_contours cv (candidates cv cnts) = None \<longleftrightarrow>
          (\<forall>c \<in> set (candidates cv cnts). \<not> accepted cv c)"
    by (rule scan_contours_None_iff)
  show "scan_contours cv (candidates cv cnts) = Some q \<longleftrightarrow>
      (\<exists>i < length (candidates cv cnts).
         accepted cv (candidates cv cnts ! i) \<and> q = approx_of cv (candidates cv cnts ! i) \<and>
         (\<forall>j < i. \<not> accepted cv (candidates cv cnts ! j)))" for q
    by (rule scan_contours_Some_iff)
qed

lemma approx_of_sym_cv: "approx_of sym_cv c = c"
  by (simp add: approx_of_def sym_cv_def)

theorem quadrilateral_selection_witness:
  "candidates sym_cv
     [[(0, 0), (10, 0), (0, 10)], [(0, 0), (30, 0), (30, 20), (0, 20)],
      [(0, 0), (2, 0), (2, 2), (0, 2)], [(0, 0), (40, 0), (0, 40)],
      [(0, 0), (10, 0), (10, 10), (0, 10)], [(0, 0), (6, 0), (0, 6)],
      [(0, 0), (20, 0), (0, 20)]] =
     [[(0, 0), (40, 0), (0, 40)], [(0, 0), (30, 0), (30, 20), (0, 20)],
      [(0, 0), (20, 0), (0, 20)], [(0, 0), (10, 0), (10, 10), (0, 10)],
      [(0, 0), (10, 0), (0, 10)]] \<and>
   scan_contours sym_cv
     (candidates sym_cv
        [[(0, 0), (10, 0), (0, 10)], [(0, 0), (30, 0), (30, 20), (0, 20)],
         [(0, 0), (2, 0), (2, 2), (0, 2)], [(0, 0), (40, 0), (0, 40)],
         [(0, 0), (10, 0), (10, 10), (0, 10)], [(0, 0), (6, 0), (0, 6)],
         [(0, 0), (20, 0), (0, 20)]]) =
     Some [(0, 0), (30, 0), (30, 20), (0, 20)]"
proof -
  let ?cnts = "[[(0, 0), (10, 0), (0, 10)], [(0, 0), (30, 0), (30, 20), (0, 20)],
      [(0, 0), (2, 0), (2, 2), (0, 2)], [(0, 0), (40, 0), (0, 40)],
      [(0, 0), (10, 0), (10, 10), (0, 10)], [(0, 0), (6, 0), (0, 6)],
      [(0, 0), (20, 0), (0, 20)]] :: contour list"
  let ?q = "[(0, 0), (30, 0), (30, 20), (0, 20)] :: contour"
  have cands: "candidates sym_cv ?cnts =
     [[(0, 0), (40, 0), (0, 40)], ?q, [(0, 0), (20, 0), (0, 20)],
      [(0, 0), (10, 0), (10, 10), (0, 10)], [(0, 0), (10, 0), (0, 10)]]"
    by (simp add: candidates_def ranked_def sorted_reverse_def sym_cv_def polygon_area_def)
  have no: "\<not> accepted sym_cv [(0, 0), (40, 0), (0, 40)]"
    by (simp add: accepted_def approx_of_def sym_cv_def)
  have yes: "accepted sym_cv ?q"
    by (simp add: accepted_def approx_of_def sym_cv_def polygon_convex_def turn_def)
  have "\<exists>i < length (candidates sym_cv ?cnts).
          accepted sym_cv (candidates sym_cv ?cnts ! i) \<and>
          ?q = approx_of sym_cv (candidates sym_cv ?cnts ! i) \<and>
          (\<forall>j < i. \<not> accepted sym_cv (candidates sym_cv ?cnts ! j))"
    unfolding cands by (intro exI[of _ 1]) (simp add: no yes approx_of_sym_cv)
  with quadrilateral_selection[of sym_cv ?cnts]
  have "scan_contours sym_cv (candidates sym_cv ?cnts) = Some ?q"
    by blast
  with cands show ?thesis by simp
qed

section \<open>Properties of rectangle\<close>

lemma rectangle_None:
  assumes "scan_contours cv (candidates cv (extracted cv (h ! img))) = None"
  shows "rectangle cv h img = Inr (h, img, img)"
  using assms by (simp add: rectangle_def candidates_def ranked_def extracted_def Let_def)

text \<open>
  The branch taken when a quadrilateral is found: the outline is drawn into the buffer
  of the input image, the warp reads that buffer after the drawing, and its result is
  a new buffer at the end of the store.
\<close>

lemma rectangle_Some:
  assumes img: "img < length h"
    and found: "scan_contours cv (candidates cv (extracted cv (h ! img))) = Some screenCnt"
  shows "\<exists>warped.
           four_point_transform cv (drawContours cv (h ! img) [screenCnt] 0 (0, 255, 0) 3)
             screenCnt = Inr warped \<and>
           rectangle cv h img =
             Inr (h[img := drawContours cv (h ! img) [screenCnt] 0 (0, 255, 0) 3] @ [warped],
                  img, length h)"
proof -
  let ?drawn = "drawContours cv (h ! img) [screenCnt] 0 (0, 255, 0) 3"
  from scan_contours_four_points[OF found] have "screenCnt \<noteq> []" by auto
  from order_points_Inr[OF this] obtain rect where "order_points screenCnt = Inr rect"
    by blast
  from four_point_transform_Inr[OF this, of cv ?drawn] obtain warped where
    w: "four_point_transform cv ?drawn screenCnt = Inr warped"
    by blast
  from img have "h[img := ?drawn] ! img = ?drawn" by simp
  with found w have "rectangle cv h img = Inr (h[img := ?drawn] @ [warped], img, length h)"
    by (simp add: rectangle_def candidates_def ranked_def extracted_def Let_def alloc_def)
  with w show ?thesis by blast
qed

text \<open>
  Claim C3. When none of the candidates (the five largest contours of the image) has an
  approximation with four points that is convex, \<open>rectangle\<close> raises nothing and returns
  the input image twice, with every buffer of the store as it was.
\<close>

theorem rectangle_not_found:
  assumes "\<forall>c \<in> set (candidates cv (extracted cv (h ! img))). \<not> accepted cv c"
  shows "rectangle cv h img = Inr (h, img, img)"
proof -
  from assms have "scan_contours cv (candidates cv (extracted cv (h ! img))) = None"
    by (simp add: scan_contours_None_iff)
  then show ?thesis by (rule rectangle_None)
qed

theorem rectangle_not_found_witness:
  "rectangle sym_cv [Scene [[(0, 0), (40, 0), (0, 40)], [(5, 5), (9, 5), (7, 8)]]] 0 =
     Inr ([Scene [[(0, 0), (40, 0), (0, 40)], [(5, 5), (9, 5), (7, 8)]]], 0, 0)"
proof -
  let ?h = "[Scene [[(0, 0), (40, 0), (0, 40)], [(5, 5), (9, 5), (7, 8)]]]"
  have "set (candidates sym_cv (extracted sym_cv (?h ! 0))) \<subseteq>
          {[(0, 0), (40, 0), (0, 40)], [(5, 5), (9, 5), (7, 8)]}"
    by (simp add: candidates_def ranked_def sorted_reverse_def extracted_def sym_cv_def)
  moreover have "\<not> accepted sym_cv [(0, 0), (40, 0), (0, 40)]"
    "\<not> accepted sym_cv [(5, 5), (9, 5), (7, 8)]"
    by (simp_all add: accepted_def approx_of_sym_cv)
  ultimately have "\<forall>c \<in> set (candidates sym_cv (extracted sym_cv (?h ! 0))). \<not> accepted sym_cv c"
    by blast
  then show ?thesis by (rule rectangle_not_found)
qed

text \<open>
  Claim C2, as the code has it. When a quadrilateral is found, the outline is drawn in
  place: the annotated image returned is the caller's own image, its buffer now holds
  the drawing, no other buffer the caller had is changed, and the warped image is a new
  buffer, computed from the input buffer after the drawing.
\<close>

theorem rectangle_draws_in_place:
  assumes "img < length h"
    and "scan_contours cv (candidates cv (extracted cv (h ! img))) = Some screenCnt"
  shows "\<exists>warped.
           four_point_transform cv (drawContours cv (h ! img) [screenCnt] 0 (0, 255, 0) 3)
             screenCnt = Inr warped \<and>
           rectangle cv h img =
             Inr (h[img := drawContours cv (h ! img) [screenCnt] 0 (0, 255, 0) 3] @ [warped],
                  img, length h)"
  using assms by (rule rectangle_Some)

text \<open>
  A picture showing one rectangle, with corners \<open>(0,0), (30,0), (30,20), (0,20)\<close>: the
  rectangle is the contour selected, and the run of \<open>rectangle\<close> on it.
\<close>

lemma scene_rectangle_found:
  "scan_contours sym_cv
     (candidates sym_cv (extracted sym_cv (Scene [[(0, 0), (30, 0), (30, 20), (0, 20)]]))) =
     Some [(0, 0), (30, 0), (30, 20), (0, 20)]"
proof -
  have c: "candidates sym_cv (extracted sym_cv (Scene [[(0, 0), (30, 0), (30, 20), (0, 20)]])) =
      [[(0, 0), (30, 0), (30, 20), (0, 20)]]"
    by (simp add: candidates_def ranked_def sorted_reverse_def extracted_def sym_cv_def)
  have "accepted sym_cv [(0, 0), (30, 0), (30, 20), (0, 20)]"
    by (simp add: accepted_def approx_of_def sym_cv_def polygon_convex_def turn_def)
  then show ?thesis
    unfolding c by (simp add: scan_contours_find approx_of_sym_cv)
qed

lemma scene_rectangle_warp:
  "four_point_transform sym_cv p [(0, 0), (30, 0), (30, 20), (0, 20)] =
     Inr (Warped p
            (\<lparr>tl_pt = (0, 0), tr_pt = (30, 0), br_pt = (30, 20), bl_pt = (0, 20)\<rparr>,
             \<lparr>tl_pt = (0, 0), tr_pt = (29, 0), br_pt = (29, 19), bl_pt = (0, 19)\<rparr>)
            (30, 20))"
proof -
  have r: "order_points [(0, 0), (30, 0), (30, 20), (0, 20)] =
             Inr \<lparr>tl_pt = (0, 0), tr_pt = (30, 0), br_pt = (30, 20), bl_pt = (0, 20)\<rparr>"
    by (simp add: order_points_eval)
  show ?thesis
    unfolding four_point_transform_Inr[OF r]
    by (simp add: sym_cv_def dims_unfold) (simp add: sqrt_eval)
qed

lemma scene_rectangle_run:
  assumes "a < length h" and "h ! a = Scene [[(0, 0), (30, 0), (30, 20), (0, 20)]]"
  shows "rectangle sym_cv h a =
     Inr (h[a := Outlined (Scene [[(0, 0), (30, 0), (30, 20), (0, 20)]])
                  [[(0, 0), (30, 0), (30, 20), (0, 20)]] 0 (0, 255, 0) 3] @
          [Warped
            (Outlined (Scene [[(0, 0), (30, 0), (30, 20), (0, 20)]])
               [[(0, 0), (30, 0), (30, 20), (0, 20)]] 0 (0, 255, 0) 3)
            (\<lparr>tl_pt = (0, 0), tr_pt = (30, 0), br_pt = (30, 20), bl_pt = (0, 20)\<rparr>,
             \<lparr>tl_pt = (0, 0), tr_pt = (29, 0), br_pt = (29, 19), bl_pt = (0, 19)\<rparr>)
            (30, 20)],
          a, length h)"
proof -
  from assms(2) scene_rectangle_found have
    "scan_contours sym_cv (candidates sym_cv (extracted sym_cv (h ! a))) =
       Some [(0, 0), (30, 0), (30, 20), (0, 20)]"
    by simp
  moreover have "drawContours sym_cv = Outlined"
    by (simp add: sym_cv_def)
  ultimately show ?thesis
    using rectangle_Some[OF assms(1), of sym_cv "[(0, 0), (30, 0), (30, 20), (0, 20)]"] assms(2)
    by (auto simp: scene_rectangle_warp)
qed

theorem rectangle_draws_in_place_witness:
  "0 < length [Scene [[(0, 0), (30, 0), (30, 20), (0, 20)]]] \<and>
   scan_contours sym_cv
     (candidates sym_cv
        (extracted sym_cv ([Scene [[(0, 0), (30, 0), (30, 20), (0, 20)]]] ! 0))) =
     Some [(0, 0), (30, 0), (30, 20), (0, 20)] \<and>
   (\<exists>warped.
      four_point_transform sym_cv
        (drawContours sym_cv ([Scene [[(0, 0), (30, 0), (30, 20), (0, 20)]]] ! 0)
           [[(0, 0), (30, 0), (30, 20), (0, 20)]] 0 (0, 255, 0) 3)
        [(0, 0), (30, 0), (30, 20), (0, 20)] = Inr warped \<and>
      rectangle sym_cv [Scene [[(0, 0), (30, 0), (30, 20), (0, 20)]]] 0 =
        Inr ([Scene [[(0, 0), (30, 0), (30, 20), (0, 20)]]]
               [0 := drawContours sym_cv ([Scene [[(0, 0), (30, 0), (30, 20), (0, 20)]]] ! 0)
                       [[(0, 0), (30, 0), (30, 20), (0, 20)]] 0 (0, 255, 0) 3] @ [warped],
             0, length [Scene [[(0, 0), (30, 0), (30, 20), (0, 20)]]]))"
proof -
  let ?h = "[Scene [[(0, 0), (30, 0), (30, 20), (0, 20)]]]"
  have len: "0 < length ?h" by simp
  have found: "scan_contours sym_cv (candidates sym_cv (extracted sym_cv (?h ! 0))) =
      Some [(0, 0), (30, 0), (30, 20), (0, 20)]"
    using scene_rectangle_found by simp
  from rectangle_draws_in_place[OF len found] len found show ?thesis
    by blast
qed

text \<open>
  Claim C2 as stated fails. On a store that holds the picture of the rectangle at
  address 0, the annotated image returned is address 0 itself, the buffer of the
  caller's image, and that buffer no longer holds the picture but the picture with the
  outline drawn on it; the warped image is the new buffer at address 1, and it shows
  the outline too.
\<close>

theorem rectangle_copy_counterexample:
  "rectangle sym_cv [Scene [[(0, 0), (30, 0), (30, 20), (0, 20)]]] 0 =
     Inr ([Outlined (Scene [[(0, 0), (30, 0), (30, 20), (0, 20)]])
             [[(0, 0), (30, 0), (30, 20), (0, 20)]] 0 (0, 255, 0) 3,
           Warped
             (Outlined (Scene [[(0, 0), (30, 0), (30, 20), (0, 20)]])
                [[(0, 0), (30, 0), (30, 20), (0, 20)]] 0 (0, 255, 0) 3)
             (\<lparr>tl_pt = (0, 0), tr_pt = (30, 0), br_pt = (30, 20), bl_pt = (0, 20)\<rparr>,
              \<lparr>tl_pt = (0, 0), tr_pt = (29, 0), br_pt = (29, 19), bl_pt = (0, 19)\<rparr>)
             (30, 20)],
          0, 1) \<and>
   Outlined (Scene [[(0, 0), (30, 0), (30, 20), (0, 20)]])
     [[(0, 0), (30, 0), (30, 20), (0, 20)]] 0 (0, 255, 0) 3 \<noteq>
     Scene [[(0, 0), (30, 0), (30, 20), (0, 20)]]"
  using scene_rectangle_run[of 0 "[Scene [[(0, 0), (30, 0), (30, 20), (0, 20)]]]"]
  by simp

end
